theory Spec2Isabelle
  imports Complex_Main "HOL-Library.Sublist"
begin

section \<open>Data model (src/types/trade.ts)\<close>

text \<open>
  The accounting core (\<open>calculateFIFOPairs\<close>, \<open>calculatePositions\<close>) is embedded over exact
  real arithmetic: a JavaScript number is a \<open>real\<close>, so rounding, overflow, NaN and the
  infinities are outside this part of the model.  Where a property depends on rounding, the
  same code is embedded a second time: \<open>calculateFIFOPairs\<close> with its arithmetic as a
  parameter, which is then taken exact or rounded to the nearest double, and
  \<open>calculatePositions\<close> over \<open>jsnum\<close> with the operations of doubles.  The CSV normalizer,
  whose control flow tests \<open>isNaN\<close>, is embedded over \<open>jsnum\<close> below.  The record of a trade
  is therefore polymorphic in its number type.  The field \<open>id\<close> is written \<open>id'\<close>.
\<close>

datatype Side = BUY | SELL | DIVIDEND | FEE | DEPOSIT | CORP_ACTION

record 'n Trade =
  id' :: string
  symbol :: string
  side :: Side
  quantity :: 'n
  price :: 'n
  date :: string
  fees :: "'n option"

text \<open>
  Trade objects are shared by reference between the caller's array, the sorted copy and
  the BUY and SELL arrays, and \<open>calculateFIFOPairs\<close> writes to them.  Objects therefore live
  in a store, and an array of trades is a list of addresses.
\<close>

type_synonym addr = nat
type_synonym heap = "addr \<Rightarrow> real Trade"

record TradePair =
  buyTrade :: "real Trade"
  sellTrade :: addr
  realizedPnL :: real
  realizedPnLPercent :: real
  holdingPeriod :: real

section \<open>Library functions taken as parameters\<close>

text \<open>
  \<open>String.prototype.localeCompare\<close>, the \<open>Date\<close> constructor, \<open>Date.prototype.getTime\<close> and
  date-fns' \<open>parseISO\<close> and \<open>differenceInDays\<close> are not code of the repository.  They are
  parameters of the model; \<open>'d\<close> is the type of \<open>Date\<close> values.  \<open>newDate year month day\<close>
  stands for \<open>new Date(parseInt(year), parseInt(month) - 1, parseInt(day))\<close> applied to the
  three pieces of text (\<open>None\<close> for \<open>undefined\<close>).
\<close>

record 'd jslib =
  localeCompare :: "string \<Rightarrow> string \<Rightarrow> real"
  newDate :: "string option \<Rightarrow> string option \<Rightarrow> string option \<Rightarrow> 'd"
  parseISO :: "string \<Rightarrow> 'd"
  getTime :: "'d \<Rightarrow> real"
  differenceInDays :: "'d \<Rightarrow> 'd \<Rightarrow> real"

section \<open>parseDate (src/utils/portfolio.ts, lines 6-14)\<close>

text \<open>\<open>split_str c s\<close> is \<open>s.split(c)\<close> for a separator of one character.\<close>

fun split_str :: "char \<Rightarrow> string \<Rightarrow> string list" where
  "split_str c [] = [[]]"
| "split_str c (x # xs) =
     (if x = c then [] # split_str c xs
      else (case split_str c xs of
              [] \<Rightarrow> [[x]]
            | p # ps \<Rightarrow> (x # p) # ps))"

text \<open>Reading an array element: \<open>undefined\<close> beyond the end, as in the destructuring.\<close>

definition element :: "'a list \<Rightarrow> nat \<Rightarrow> 'a option" where
  "element xs i = (if i < length xs then Some (xs ! i) else None)"

definition parseDate :: "'d jslib \<Rightarrow> string \<Rightarrow> 'd" where
  "parseDate lib dateString =
     (if CHR ''/'' \<in> set dateString then
        (let parts = split_str CHR ''/'' dateString;
             month = element parts 0;
             day = element parts 1;
             year = element parts 2
         in newDate lib year month day)
      else parseISO lib dateString)"

section \<open>The sort comparator and the sort (lines 169-184 and 244-259)\<close>

definition compareTrades :: "'d jslib \<Rightarrow> real Trade \<Rightarrow> real Trade \<Rightarrow> real" where
  "compareTrades lib a b =
     (if symbol a \<noteq> symbol b then localeCompare lib (symbol a) (symbol b)
      else
        (let dateA = getTime lib (parseDate lib (date a));
             dateB = getTime lib (parseDate lib (date b))
         in if dateA \<noteq> dateB then dateA - dateB
            else if side a = BUY \<and> side b = SELL then - 1
            else if side a = SELL \<and> side b = BUY then 1
            else 0))"

text \<open>
  \<open>Array.prototype.sort\<close> is a stable sort.  It is embedded as the stable insertion sort:
  an element is placed before the first element it does not compare greater than.  With a
  consistent comparator every stable sort returns this list.
\<close>

fun insertBy :: "('a \<Rightarrow> 'a \<Rightarrow> real) \<Rightarrow> 'a \<Rightarrow> 'a list \<Rightarrow> 'a list" where
  "insertBy cmp x [] = [x]"
| "insertBy cmp x (y # ys) =
     (if cmp x y > 0 then y # insertBy cmp x ys else x # y # ys)"

definition sortBy :: "('a \<Rightarrow> 'a \<Rightarrow> real) \<Rightarrow> 'a list \<Rightarrow> 'a list" where
  "sortBy cmp xs = foldr (insertBy cmp) xs []"

section \<open>calculateFIFOPairs (lines 163-238)\<close>

text \<open>
  The inner \<open>for\<close> loop (lines 201-209) for the sell object at address \<open>s\<close>: it walks the
  BUY array while \<open>remainingQuantity > 0\<close>, appends to \<open>matchedBuys\<close> and writes the reduced
  quantity into the BUY object.  It returns the store, \<open>remainingQuantity\<close> and
  \<open>matchedBuys\<close>, a list of (BUY object, matched quantity).
\<close>

fun matchBuys ::
  "heap \<Rightarrow> addr list \<Rightarrow> addr \<Rightarrow> real \<Rightarrow> (addr \<times> real) list
     \<Rightarrow> heap \<times> real \<times> (addr \<times> real) list" where
  "matchBuys h [] s remainingQuantity matchedBuys = (h, remainingQuantity, matchedBuys)"
| "matchBuys h (b # bs) s remainingQuantity matchedBuys =
     (if remainingQuantity > 0 then
        (if symbol (h b) = symbol (h s) \<and> quantity (h b) > 0 then
           (let matchQuantity = min remainingQuantity (quantity (h b))
            in matchBuys (h(b := (h b)\<lparr>quantity := quantity (h b) - matchQuantity\<rparr>)) bs s
                 (remainingQuantity - matchQuantity) (matchedBuys @ [(b, matchQuantity)]))
         else matchBuys h bs s remainingQuantity matchedBuys)
      else (h, remainingQuantity, matchedBuys))"

text \<open>
  Lines 213-233: the pair built from a sell object and a non-empty \<open>matchedBuys\<close> whose
  first entry holds the BUY object \<open>b0\<close>.  The two \<open>reduce\<close> calls are left folds from 0.
  The spread \<open>{...matchedBuys[0].trade, quantity, price}\<close> is a new object: a value.
\<close>

definition totalBuyValue :: "heap \<Rightarrow> (addr \<times> real) list \<Rightarrow> real" where
  "totalBuyValue h matchedBuys = foldl (\<lambda>sum m. sum + price (h (fst m)) * snd m) 0 matchedBuys"

definition totalBuyQuantity :: "(addr \<times> real) list \<Rightarrow> real" where
  "totalBuyQuantity matchedBuys = foldl (\<lambda>sum m. sum + snd m) 0 matchedBuys"

definition makePair :: "'d jslib \<Rightarrow> heap \<Rightarrow> addr \<Rightarrow> addr \<Rightarrow> (addr \<times> real) list \<Rightarrow> TradePair" where
  "makePair lib h s b0 matchedBuys =
     (let avgBuyPrice = totalBuyValue h matchedBuys / totalBuyQuantity matchedBuys;
          pnl = (price (h s) - avgBuyPrice) * quantity (h s);
          pnlPercent = (if avgBuyPrice > 0 then pnl / (avgBuyPrice * quantity (h s)) * 100 else 0);
          holding = differenceInDays lib (parseDate lib (date (h s))) (parseDate lib (date (h b0)))
      in \<lparr> buyTrade = (h b0)\<lparr>quantity := quantity (h s), price := avgBuyPrice\<rparr>,
           sellTrade = s,
           realizedPnL = pnl,
           realizedPnLPercent = pnlPercent,
           holdingPeriod = holding \<rparr>)"

text \<open>
  Line 212: a pair is pushed when \<open>remainingQuantity === 0 && matchedBuys.length > 0\<close>.
  \<open>pairFor\<close> is the list of pairs one sell adds: one pair or none.
\<close>

definition pairFor :: "'d jslib \<Rightarrow> heap \<Rightarrow> addr \<Rightarrow> real \<Rightarrow> (addr \<times> real) list \<Rightarrow> TradePair list" where
  "pairFor lib h s remainingQuantity matchedBuys =
     (case matchedBuys of
        [] \<Rightarrow> []
      | m # ms \<Rightarrow> (if remainingQuantity = 0 then [makePair lib h s (fst m) matchedBuys] else []))"

text \<open>The outer \<open>forEach\<close> over the SELL array (lines 196-235).\<close>

fun matchSells ::
  "'d jslib \<Rightarrow> heap \<Rightarrow> addr list \<Rightarrow> addr list \<Rightarrow> TradePair list \<Rightarrow> heap \<times> TradePair list" where
  "matchSells lib h buyTrades [] pairs = (h, pairs)"
| "matchSells lib h buyTrades (s # ss) pairs =
     (case matchBuys h buyTrades s (quantity (h s)) [] of
        (h1, remainingQuantity, matchedBuys) \<Rightarrow>
          matchSells lib h1 buyTrades ss (pairs @ pairFor lib h1 s remainingQuantity matchedBuys))"

text \<open>
  Lines 169-193: the sorted spread copy and its partition.  Every record whose side is not
  BUY goes to the SELL array (the \<open>else\<close> of line 190).
\<close>

definition sortedTrades :: "'d jslib \<Rightarrow> heap \<Rightarrow> addr list \<Rightarrow> addr list" where
  "sortedTrades lib h trades = sortBy (\<lambda>a b. compareTrades lib (h a) (h b)) trades"

definition buyTrades :: "'d jslib \<Rightarrow> heap \<Rightarrow> addr list \<Rightarrow> addr list" where
  "buyTrades lib h trades = filter (\<lambda>a. side (h a) = BUY) (sortedTrades lib h trades)"

definition sellTrades :: "'d jslib \<Rightarrow> heap \<Rightarrow> addr list \<Rightarrow> addr list" where
  "sellTrades lib h trades = filter (\<lambda>a. side (h a) \<noteq> BUY) (sortedTrades lib h trades)"

text \<open>
  The function returns the pairs; the model also returns the store after the call, which
  is what the caller's records look like then.
\<close>

definition calculateFIFOPairs :: "'d jslib \<Rightarrow> heap \<Rightarrow> addr list \<Rightarrow> heap \<times> TradePair list" where
  "calculateFIFOPairs lib h trades =
     matchSells lib h (buyTrades lib h trades) (sellTrades lib h trades) []"

section \<open>calculatePositions (lines 240-326)\<close>

text \<open>
  A position object as \<open>calculatePositions\<close> creates it.  The function reads the trade
  objects and never writes to them, so it is embedded on their values.
\<close>

record Position =
  symbol :: string
  quantity :: real
  avgBuyPrice :: real
  totalCost :: real
  currentPrice :: "real option"
  marketValue :: "real option"
  unrealizedPnL :: "real option"
  unrealizedPnLPercent :: "real option"

text \<open>
  The \<open>Map<string, Position>\<close> is a list of entries in insertion order, which is the order
  of \<open>positions.values()\<close>.  \<open>mapSet\<close> replaces the value of a present key where it stands
  and appends an absent one.
\<close>

type_synonym positions = "(string \<times> Position) list"

definition mapHas :: "positions \<Rightarrow> string \<Rightarrow> bool" where
  "mapHas m k = (map_of m k \<noteq> None)"

fun mapSet :: "string \<Rightarrow> Position \<Rightarrow> positions \<Rightarrow> positions" where
  "mapSet k v [] = [(k, v)]"
| "mapSet k v (e # es) = (if fst e = k then (k, v) # es else e # mapSet k v es)"

definition newPosition :: "string \<Rightarrow> Position" where
  "newPosition key =
     \<lparr> symbol = key, quantity = 0, avgBuyPrice = 0, totalCost = 0,
       currentPrice = Some 0, marketValue = Some 0,
       unrealizedPnL = Some 0, unrealizedPnLPercent = Some 0 \<rparr>"

text \<open>Lines 283-317: what one trade does to the position of its symbol.\<close>

definition updatePosition :: "Position \<Rightarrow> real Trade \<Rightarrow> Position" where
  "updatePosition position trade =
     (if side trade = BUY then
        (let newTotalCost = totalCost position + price trade * Trade.quantity trade;
             newQuantity = quantity position + Trade.quantity trade
         in position\<lparr> avgBuyPrice := (if newQuantity > 0 then newTotalCost / newQuantity else 0),
                       totalCost := newTotalCost,
                       quantity := newQuantity \<rparr>)
      else if side trade = SELL then
        (let sellQuantity = min (Trade.quantity trade) (quantity position)
         in if sellQuantity > 0 then
              (let soldCost = avgBuyPrice position * sellQuantity;
                   reduced = position\<lparr> quantity := quantity position - sellQuantity,
                                       totalCost := totalCost position - soldCost \<rparr>
               in if quantity reduced > 0
                  then reduced\<lparr> avgBuyPrice := totalCost reduced / quantity reduced \<rparr>
                  else reduced\<lparr> avgBuyPrice := 0, totalCost := 0 \<rparr>)
            else position)
      else position)"

text \<open>Lines 263-320: the body of the \<open>forEach\<close>, on the map.\<close>

definition processTrade :: "positions \<Rightarrow> real Trade \<Rightarrow> positions" where
  "processTrade m trade =
     (let key = Trade.symbol trade;
          m1 = (if \<not> mapHas m key then m @ [(key, newPosition key)] else m)
      in case map_of m1 key of
           None \<Rightarrow> m1
         | Some position \<Rightarrow> mapSet key (updatePosition position trade) m1)"

text \<open>
  The position object a trade of symbol \<open>key\<close> works on (lines 266-279): the one the map
  holds, or the zeroed one created for a symbol seen for the first time.
\<close>

definition positionOf :: "positions \<Rightarrow> string \<Rightarrow> Position" where
  "positionOf m key = (case map_of m key of None \<Rightarrow> newPosition key | Some position \<Rightarrow> position)"

definition accumulate :: "real Trade list \<Rightarrow> positions" where
  "accumulate records = foldl processTrade [] records"

definition calculatePositions :: "'d jslib \<Rightarrow> real Trade list \<Rightarrow> Position list" where
  "calculatePositions lib trades =
     filter (\<lambda>pos. quantity pos > 0) (map snd (accumulate (sortBy (compareTrades lib) trades)))"

section \<open>JavaScript numbers for the normalizer\<close>

text \<open>
  \<open>parseCSVData\<close> branches on \<open>isNaN\<close>, and \<open>parseFloat\<close> returns \<open>NaN\<close> and the infinities
  for some texts, so its numbers are the reals extended with these three values.  Finite
  arithmetic is exact, and zero has no sign (a division by zero is a division by \<open>+0\<close>).
\<close>

datatype jsnum = NaN | PInf | NInf | Fin real

definition isNaN :: "jsnum \<Rightarrow> bool" where
  "isNaN x = (x = NaN)"

fun js_lt :: "jsnum \<Rightarrow> jsnum \<Rightarrow> bool" where
  "js_lt NaN y = False"
| "js_lt x NaN = False"
| "js_lt PInf y = False"
| "js_lt x NInf = False"
| "js_lt NInf y = True"
| "js_lt (Fin x) PInf = True"
| "js_lt (Fin x) (Fin y) = (x < y)"

definition js_eq :: "jsnum \<Rightarrow> jsnum \<Rightarrow> bool" where
  "js_eq x y = (x \<noteq> NaN \<and> y \<noteq> NaN \<and> x = y)"

definition js_le :: "jsnum \<Rightarrow> jsnum \<Rightarrow> bool" where
  "js_le x y = (js_lt x y \<or> js_eq x y)"

fun js_abs :: "jsnum \<Rightarrow> jsnum" where
  "js_abs NaN = NaN"
| "js_abs PInf = PInf"
| "js_abs NInf = PInf"
| "js_abs (Fin x) = Fin \<bar>x\<bar>"

fun js_neg :: "jsnum \<Rightarrow> jsnum" where
  "js_neg NaN = NaN"
| "js_neg PInf = NInf"
| "js_neg NInf = PInf"
| "js_neg (Fin x) = Fin (- x)"

fun js_div :: "jsnum \<Rightarrow> jsnum \<Rightarrow> jsnum" where
  "js_div NaN y = NaN"
| "js_div x NaN = NaN"
| "js_div (Fin x) (Fin y) =
     (if y \<noteq> 0 then Fin (x / y) else if x = 0 then NaN else if x > 0 then PInf else NInf)"
| "js_div (Fin x) y = Fin 0"
| "js_div x (Fin y) = (if y \<ge> 0 then x else js_neg x)"
| "js_div x y = NaN"

section \<open>String builtins used by the normalizer\<close>

text \<open>
  A string is a list of code units below 256.  \<open>trim\<close> strips the white space of that
  range; \<open>toUpperCase\<close> maps the letters a to z, which is all that can turn a text into one
  of the transaction codes.
\<close>

definition isSpace :: "char \<Rightarrow> bool" where
  "isSpace c = ((of_char c :: nat) \<in> {9, 10, 11, 12, 13, 32, 160})"

definition isDigit :: "char \<Rightarrow> bool" where
  "isDigit c = (48 \<le> (of_char c :: nat) \<and> (of_char c :: nat) \<le> 57)"

definition trim :: "string \<Rightarrow> string" where
  "trim s = rev (dropWhile isSpace (rev (dropWhile isSpace s)))"

definition upperChar :: "char \<Rightarrow> char" where
  "upperChar c =
     (case map_of (zip ''abcdefghijklmnopqrstuvwxyz'' ''ABCDEFGHIJKLMNOPQRSTUVWXYZ'') c of
        None \<Rightarrow> c
      | Some u \<Rightarrow> u)"

definition toUpperCase :: "string \<Rightarrow> string" where
  "toUpperCase s = map upperChar s"

definition digitVal :: "char \<Rightarrow> nat" where
  "digitVal c = of_char c - 48"

definition digitsValue :: "string \<Rightarrow> nat" where
  "digitsValue s = foldl (\<lambda>n c. 10 * n + digitVal c) 0 s"

text \<open>
  \<open>parseFloat\<close>: leading white space is skipped and the longest prefix that is a
  \<open>StrDecimalLiteral\<close> (sign, \<open>Infinity\<close> or digits with an optional fraction and exponent) is
  read; \<open>NaN\<close> when there is none.  The value is the exact decimal value.
\<close>

definition exponentPart :: "string \<Rightarrow> real" where
  "exponentPart r =
     (case r of
        [] \<Rightarrow> 1
      | c # t \<Rightarrow>
          if c = CHR ''e'' \<or> c = CHR ''E'' then
            (case t of
               [] \<Rightarrow> 1
             | d # u \<Rightarrow>
                 if d = CHR ''+'' then
                   (if takeWhile isDigit u = [] then 1 else 10 ^ digitsValue (takeWhile isDigit u))
                 else if d = CHR ''-'' then
                   (if takeWhile isDigit u = [] then 1 else 1 / 10 ^ digitsValue (takeWhile isDigit u))
                 else
                   (if takeWhile isDigit t = [] then 1 else 10 ^ digitsValue (takeWhile isDigit t)))
          else 1)"

definition parseUnsigned :: "string \<Rightarrow> jsnum" where
  "parseUnsigned s =
     (if prefix ''Infinity'' s then PInf
      else
        (let ip = takeWhile isDigit s;
             r1 = dropWhile isDigit s;
             hasPoint = (case r1 of [] \<Rightarrow> False | c # t \<Rightarrow> c = CHR ''.'');
             fp = (if hasPoint then takeWhile isDigit (tl r1) else []);
             r2 = (if hasPoint then dropWhile isDigit (tl r1) else r1)
         in if ip = [] \<and> fp = [] then NaN
            else Fin (real (digitsValue (ip @ fp)) / 10 ^ length fp * exponentPart r2)))"

definition parseFloat :: "string \<Rightarrow> jsnum" where
  "parseFloat s =
     (case dropWhile isSpace s of
        [] \<Rightarrow> NaN
      | c # t \<Rightarrow>
          if c = CHR ''-'' then js_neg (parseUnsigned t)
          else if c = CHR ''+'' then parseUnsigned t
          else parseUnsigned (c # t))"

text \<open>The text of a row index in the template literal of line 130.\<close>

definition digitChar :: "nat \<Rightarrow> char" where
  "digitChar n = ''0123456789'' ! n"

function decimal :: "nat \<Rightarrow> string" where
  "decimal n = (if n < 10 then [digitChar n] else decimal (n div 10) @ [digitChar (n mod 10)])"
  by pat_completeness auto
termination
  by (relation "measure (\<lambda>n. n)") auto

declare decimal.simps [simp del]

section \<open>parseCSVData (lines 16-161)\<close>

text \<open>
  PapaParse with \<open>header: true\<close> turns the text into one object per row, keyed by the header
  names, every value a string; a column the row does not have is \<open>undefined\<close> (\<open>None\<close>).  The
  model starts from these rows (\<open>results.data\<close>).
\<close>

record Row =
  Instrument :: "string option"
  TransCode :: "string option"
  Quantity :: "string option"
  Amount :: "string option"
  ActivityDate :: "string option"

datatype error = NoDataFound | NoValidTrades

text \<open>
  \<open>falsy v\<close> is \<open>!v\<close> for a value that is a string or \<open>undefined\<close>.  \<open>fieldText v\<close> is the string
  of a field; the code reads it only behind a test that the field is not falsy.
\<close>

definition falsy :: "string option \<Rightarrow> bool" where
  "falsy v = (v = None \<or> v = Some [])"

definition fieldText :: "string option \<Rightarrow> string" where
  "fieldText v = (case v of None \<Rightarrow> [] | Some s \<Rightarrow> s)"

text \<open>The \<open>switch\<close> of lines 50-73; \<open>None\<close> is the \<open>default\<close> branch.\<close>

definition mapSide :: "string \<Rightarrow> Side option" where
  "mapSide transCode =
     (if transCode = ''BUY'' then Some BUY
      else if transCode = ''SELL'' then Some SELL
      else if transCode = ''CDIV'' then Some DIVIDEND
      else if transCode = ''AFEE'' \<or> transCode = ''GOLD'' then Some FEE
      else if transCode = ''RTP'' then Some DEPOSIT
      else if transCode = ''SOFF'' then Some CORP_ACTION
      else None)"

text \<open>Lines 84-89.\<close>

definition rowQuantity :: "Row \<Rightarrow> jsnum" where
  "rowQuantity row =
     (let quantityStr = (if falsy (Quantity row) then ''0'' else fieldText (Quantity row));
          cleanQuantityStr = trim (filter (\<lambda>c. c \<noteq> CHR 0x22) quantityStr)
      in parseFloat cleanQuantityStr)"

text \<open>Lines 99-103.\<close>

definition rowAmount :: "Row \<Rightarrow> jsnum" where
  "rowAmount row =
     (let amountStr = (if falsy (Amount row) then ''0'' else fieldText (Amount row))
      in if amountStr \<noteq> [] \<and> trim amountStr \<noteq> []
         then parseFloat (filter (\<lambda>c. c \<notin> set ''$,()'') amountStr)
         else Fin 0)"

text \<open>
  Lines 106-116: the price from the amount; \<open>None\<close> is the \<open>return\<close> of line 115.  The side
  is BUY or SELL here; \<open>calculatedPrice\<close> stays 0 for any other.
\<close>

definition calculatedPrice :: "Side \<Rightarrow> jsnum \<Rightarrow> jsnum \<Rightarrow> jsnum option" where
  "calculatedPrice sd amount qty =
     (if \<not> js_eq amount (Fin 0) \<and> js_lt (Fin 0) qty then
        (if sd = BUY then Some (js_div (js_abs amount) qty)
         else if sd = SELL then Some (js_div amount qty)
         else Some (Fin 0))
      else None)"

text \<open>The body of the \<open>forEach\<close> (lines 30-141): the trade a row adds, or \<open>None\<close> when it returns early.\<close>

definition processRow :: "Row \<Rightarrow> nat \<Rightarrow> jsnum Trade option" where
  "processRow row index =
     (if falsy (Instrument row) \<or> falsy (TransCode row) \<or> trim (fieldText (Instrument row)) = [] then None
      else if trim (fieldText (Instrument row)) = [] then None
      else
        (case mapSide (toUpperCase (fieldText (TransCode row))) of
           None \<Rightarrow> None
         | Some sd \<Rightarrow>
             if sd \<noteq> BUY \<and> sd \<noteq> SELL then None
             else if isNaN (rowQuantity row) \<or> js_le (rowQuantity row) (Fin 0) then None
             else
               (case calculatedPrice sd (rowAmount row) (rowQuantity row) of
                  None \<Rightarrow> None
                | Some p \<Rightarrow>
                    if isNaN p \<or> js_le p (Fin 0) then None
                    else if falsy (ActivityDate row) \<or> trim (fieldText (ActivityDate row)) = [] then None
                    else Some \<lparr> id' = fieldText (Instrument row) @ ''-'' @ decimal index,
                                Trade.symbol = trim (fieldText (Instrument row)),
                                side = sd,
                                Trade.quantity = js_abs (rowQuantity row),
                                price = p,
                                date = fieldText (ActivityDate row),
                                fees = Some (Fin 0) \<rparr>)))"

text \<open>The loop pushes the trade of each row that is not skipped, in row order.\<close>

fun processRows :: "Row list \<Rightarrow> nat \<Rightarrow> jsnum Trade list \<Rightarrow> jsnum Trade list" where
  "processRows [] index trades = trades"
| "processRows (row # rows) index trades =
     processRows rows (Suc index)
       (case processRow row index of None \<Rightarrow> trades | Some trade \<Rightarrow> trades @ [trade])"

definition parseCSVData :: "Row list \<Rightarrow> error + jsnum Trade list" where
  "parseCSVData data =
     (if data = [] then Inl NoDataFound
      else
        (let trades = processRows data 0 []
         in if trades = [] then Inl NoValidTrades else Inr trades))"

section \<open>Observing the matching loop\<close>

text \<open>
  One entry per iteration of the outer loop of \<open>calculateFIFOPairs\<close>: the sell object, the
  store before and after its inner loop, and the \<open>remainingQuantity\<close> and \<open>matchedBuys\<close> the
  inner loop ended with.
\<close>

record Run =
  run_sell :: addr
  run_before :: heap
  run_after :: heap
  run_remaining :: real
  run_matched :: "(addr \<times> real) list"

fun sellRuns :: "heap \<Rightarrow> addr list \<Rightarrow> addr list \<Rightarrow> Run list" where
  "sellRuns h bs [] = []"
| "sellRuns h bs (s # ss) =
     (case matchBuys h bs s (Trade.quantity (h s)) [] of
        (h1, remainingQuantity, matchedBuys) \<Rightarrow>
          \<lparr> run_sell = s, run_before = h, run_after = h1,
            run_remaining = remainingQuantity, run_matched = matchedBuys \<rparr> # sellRuns h1 bs ss)"

definition fifoRuns :: "'d jslib \<Rightarrow> heap \<Rightarrow> addr list \<Rightarrow> Run list" where
  "fifoRuns lib h trades = sellRuns h (buyTrades lib h trades) (sellTrades lib h trades)"

text \<open>The test of line 212 on a run: the sell achieved a complete match.\<close>

definition complete :: "Run \<Rightarrow> bool" where
  "complete r = (run_remaining r = 0 \<and> run_matched r \<noteq> [])"

text \<open>
  The BUY quantity a sell of symbol \<open>name\<close> can still be matched against in store \<open>h\<close>: the
  sum over the lots of that symbol with a positive quantity.
\<close>

definition availableQuantity :: "heap \<Rightarrow> addr list \<Rightarrow> string \<Rightarrow> real" where
  "availableQuantity h bs name =
     sum_list (map (\<lambda>b. if Trade.symbol (h b) = name \<and> Trade.quantity (h b) > 0
                         then Trade.quantity (h b) else 0) bs)"

text \<open>
  The comparator is consistent on a set of records when it is total and transitive there
  (read as "not after"); the result of \<open>Array.prototype.sort\<close> is specified only then.
\<close>

definition consistentOn :: "('a \<Rightarrow> 'a \<Rightarrow> real) \<Rightarrow> 'a set \<Rightarrow> bool" where
  "consistentOn cmp A =
     ((\<forall>a\<in>A. \<forall>b\<in>A. cmp a b > 0 \<longrightarrow> cmp b a \<le> 0) \<and>
      (\<forall>a\<in>A. \<forall>b\<in>A. \<forall>c\<in>A. cmp a b \<le> 0 \<and> cmp b c \<le> 0 \<longrightarrow> cmp a c \<le> 0))"

text \<open>
  \<open>frame h h' B\<close>: store \<open>h'\<close> differs from \<open>h\<close> at most in the quantity field of the objects
  in \<open>B\<close>, and no quantity is larger than before.
\<close>

definition frame :: "heap \<Rightarrow> heap \<Rightarrow> addr set \<Rightarrow> bool" where
  "frame h h' B =
     (\<forall>a. h' a = (h a)\<lparr>Trade.quantity := Trade.quantity (h' a)\<rparr> \<and>
          Trade.quantity (h' a) \<le> Trade.quantity (h a) \<and>
          (a \<notin> B \<longrightarrow> h' a = h a))"

section \<open>The caller's copies (App.tsx, handleDataLoaded, lines 24-31)\<close>

text \<open>
  \<open>parsedTrades.map(trade => ({ ...trade }))\<close> allocates one new object per record.  The
  store allocates upwards from \<open>free\<close>, an address above every object in use.
\<close>

fun copyTrades :: "heap \<Rightarrow> addr \<Rightarrow> addr list \<Rightarrow> heap \<times> addr \<times> addr list" where
  "copyTrades h free [] = (h, free, [])"
| "copyTrades h free (a # as) =
     (case copyTrades (h(free := h a)) (Suc free) as of
        (h1, free1, copies) \<Rightarrow> (h1, free1, free # copies))"

definition fifoOfCopies :: "'d jslib \<Rightarrow> heap \<Rightarrow> addr \<Rightarrow> addr list \<Rightarrow> heap \<times> TradePair list" where
  "fifoOfCopies lib h free parsedTrades =
     (case copyTrades h free parsedTrades of
        (h1, free1, tradesForFIFO) \<Rightarrow> calculateFIFOPairs lib h1 tradesForFIFO)"

section \<open>Rounded arithmetic\<close>

text \<open>
  A JavaScript number is an IEEE 754 double, and every arithmetic operation returns the
  double nearest to the exact result, a tie going to the even significand.  \<open>toDouble\<close> is
  that rounding on the reals: the result has 53 significant bits.  The exponent is not
  bounded here: a result that would overflow to \<open>Infinity\<close> or fall in the subnormal range is
  outside this model, as are \<open>NaN\<close> and the infinities.
\<close>

definition roundEven :: "real \<Rightarrow> int" where
  "roundEven x =
     (let f = \<lfloor>x\<rfloor>; d = x - of_int f
      in if d < 1 / 2 then f
         else if 1 / 2 < d then f + 1
         else if even f then f else f + 1)"

definition pow2 :: "int \<Rightarrow> real" where
  "pow2 k = (if 0 \<le> k then 2 ^ nat k else 1 / 2 ^ nat (- k))"

definition toDouble :: "real \<Rightarrow> real" where
  "toDouble x =
     (if x = 0 then 0
      else (let e = \<lfloor>log 2 \<bar>x\<bar>\<rfloor> - 52
            in sgn x * of_int (roundEven (\<bar>x\<bar> / pow2 e)) * pow2 e))"

text \<open>
  The four operations as a parameter: \<open>exact\<close> is the arithmetic of the reals, \<open>ieee\<close> rounds
  every result.  Comparisons and \<open>Math.min\<close> are exact for both.
\<close>

record arith =
  ar_add :: "real \<Rightarrow> real \<Rightarrow> real"
  ar_sub :: "real \<Rightarrow> real \<Rightarrow> real"
  ar_mul :: "real \<Rightarrow> real \<Rightarrow> real"
  ar_div :: "real \<Rightarrow> real \<Rightarrow> real"

definition exact :: arith where
  "exact = \<lparr> ar_add = (+), ar_sub = (-), ar_mul = (*), ar_div = (/) \<rparr>"


text \<open>
  What the matching loop needs of subtraction: \<open>x - x\<close> is 0, and the difference of a larger
  and a smaller number is positive.  Exact and rounded subtraction both have it, and so
  have finite doubles, where the difference of two distinct numbers is never rounded to 0.
\<close>

definition orderly :: "arith \<Rightarrow> bool" where
  "orderly ar = ((\<forall>x. ar_sub ar x x = 0) \<and> (\<forall>x y. y < x \<longrightarrow> 0 < ar_sub ar x y))"

section \<open>calculateFIFOPairs over a given arithmetic (lines 163-238)\<close>

text \<open>
  The loops of \<open>calculateFIFOPairs\<close> once more, line by line as above, with every \<open>+\<close>, \<open>-\<close>,
  \<open>*\<close> and \<open>/\<close> of the source taken from the arithmetic \<open>ar\<close>.  The sort and the partition do
  no arithmetic on quantities and are the ones above.
\<close>

fun matchBuysA ::
  "arith \<Rightarrow> heap \<Rightarrow> addr list \<Rightarrow> addr \<Rightarrow> real \<Rightarrow> (addr \<times> real) list
     \<Rightarrow> heap \<times> real \<times> (addr \<times> real) list" where
  "matchBuysA ar h [] s remainingQuantity matchedBuys = (h, remainingQuantity, matchedBuys)"
| "matchBuysA ar h (b # bs) s remainingQuantity matchedBuys =
     (if remainingQuantity > 0 then
        (if Trade.symbol (h b) = Trade.symbol (h s) \<and> Trade.quantity (h b) > 0 then
           (let matchQuantity = min remainingQuantity (Trade.quantity (h b))
            in matchBuysA ar
                 (h(b := (h b)\<lparr>Trade.quantity := ar_sub ar (Trade.quantity (h b)) matchQuantity\<rparr>))
                 bs s (ar_sub ar remainingQuantity matchQuantity)
                 (matchedBuys @ [(b, matchQuantity)]))
         else matchBuysA ar h bs s remainingQuantity matchedBuys)
      else (h, remainingQuantity, matchedBuys))"

text \<open>
  Line 220 reads \<open>matchedBuys[0].trade\<close>.  On an empty array \<open>matchedBuys[0]\<close> is \<open>undefined\<close>
  and the read throws a \<open>TypeError\<close>; here that is a value.  It is the one place where the
  function can throw on records of the declared type.
\<close>

datatype exn = TypeError

definition makePairA ::
  "arith \<Rightarrow> 'd jslib \<Rightarrow> heap \<Rightarrow> addr \<Rightarrow> (addr \<times> real) list \<Rightarrow> exn + TradePair" where
  "makePairA ar lib h s matchedBuys =
     (let totalBuyValue =
            foldl (\<lambda>sum m. ar_add ar sum (ar_mul ar (price (h (fst m))) (snd m))) 0 matchedBuys;
          totalBuyQuantity = foldl (\<lambda>sum m. ar_add ar sum (snd m)) 0 matchedBuys;
          avgBuyPrice = ar_div ar totalBuyValue totalBuyQuantity;
          pnl = ar_mul ar (ar_sub ar (price (h s)) avgBuyPrice) (Trade.quantity (h s));
          pnlPercent =
            (if avgBuyPrice > 0
             then ar_mul ar (ar_div ar pnl (ar_mul ar avgBuyPrice (Trade.quantity (h s)))) 100
             else 0)
      in case element matchedBuys 0 of
           None \<Rightarrow> Inl TypeError
         | Some m \<Rightarrow>
             Inr \<lparr> buyTrade = (h (fst m))\<lparr>Trade.quantity := Trade.quantity (h s), price := avgBuyPrice\<rparr>,
                   sellTrade = s,
                   realizedPnL = pnl,
                   realizedPnLPercent = pnlPercent,
                   holdingPeriod =
                     differenceInDays lib (parseDate lib (date (h s)))
                       (parseDate lib (date (h (fst m)))) \<rparr>)"

definition pairForA ::
  "arith \<Rightarrow> 'd jslib \<Rightarrow> heap \<Rightarrow> addr \<Rightarrow> real \<Rightarrow> (addr \<times> real) list \<Rightarrow> exn + TradePair list" where
  "pairForA ar lib h s remainingQuantity matchedBuys =
     (if remainingQuantity = 0 \<and> length matchedBuys > 0 then
        (case makePairA ar lib h s matchedBuys of
           Inl e \<Rightarrow> Inl e
         | Inr p \<Rightarrow> Inr [p])
      else Inr [])"

fun matchSellsA ::
  "arith \<Rightarrow> 'd jslib \<Rightarrow> heap \<Rightarrow> addr list \<Rightarrow> addr list \<Rightarrow> TradePair list
     \<Rightarrow> exn + heap \<times> TradePair list" where
  "matchSellsA ar lib h buys [] pairs = Inr (h, pairs)"
| "matchSellsA ar lib h buys (s # ss) pairs =
     (case matchBuysA ar h buys s (Trade.quantity (h s)) [] of
        (h1, remainingQuantity, matchedBuys) \<Rightarrow>
          (case pairForA ar lib h1 s remainingQuantity matchedBuys of
             Inl e \<Rightarrow> Inl e
           | Inr ps \<Rightarrow> matchSellsA ar lib h1 buys ss (pairs @ ps)))"

definition calculateFIFOPairsA ::
  "arith \<Rightarrow> 'd jslib \<Rightarrow> heap \<Rightarrow> addr list \<Rightarrow> exn + heap \<times> TradePair list" where
  "calculateFIFOPairsA ar lib h trades =
     matchSellsA ar lib h (buyTrades lib h trades) (sellTrades lib h trades) []"

text \<open>The runs of the outer loop, as above.\<close>

fun sellRunsA :: "arith \<Rightarrow> heap \<Rightarrow> addr list \<Rightarrow> addr list \<Rightarrow> Run list" where
  "sellRunsA ar h bs [] = []"
| "sellRunsA ar h bs (s # ss) =
     (case matchBuysA ar h bs s (Trade.quantity (h s)) [] of
        (h1, remainingQuantity, matchedBuys) \<Rightarrow>
          \<lparr> run_sell = s, run_before = h, run_after = h1,
            run_remaining = remainingQuantity, run_matched = matchedBuys \<rparr> # sellRunsA ar h1 bs ss)"

definition fifoRunsA :: "arith \<Rightarrow> 'd jslib \<Rightarrow> heap \<Rightarrow> addr list \<Rightarrow> Run list" where
  "fifoRunsA ar lib h trades = sellRunsA ar h (buyTrades lib h trades) (sellTrades lib h trades)"

section \<open>Arithmetic of JavaScript numbers\<close>

text \<open>
  The operations of doubles on \<open>jsnum\<close>: a finite result is rounded to the nearest double and
  becomes an infinity when the rounded magnitude reaches \<open>2 ^ 1024\<close>; the infinities and \<open>NaN\<close>
  follow IEEE 754.  As above zero has no sign, and the subnormal range is not modelled:
  there a double is rounded more coarsely than \<open>toDouble\<close> rounds.
\<close>

definition js_round :: "real \<Rightarrow> jsnum" where
  "js_round x =
     (let y = toDouble x
      in if 2 ^ 1024 \<le> y then PInf else if y \<le> - (2 ^ 1024) then NInf else Fin y)"

fun js_add :: "jsnum \<Rightarrow> jsnum \<Rightarrow> jsnum" where
  "js_add NaN y = NaN"
| "js_add x NaN = NaN"
| "js_add (Fin x) (Fin y) = js_round (x + y)"
| "js_add (Fin x) y = y"
| "js_add x (Fin y) = x"
| "js_add x y = (if x = y then x else NaN)"

definition js_sub :: "jsnum \<Rightarrow> jsnum \<Rightarrow> jsnum" where
  "js_sub x y = js_add x (js_neg y)"

fun js_mul :: "jsnum \<Rightarrow> jsnum \<Rightarrow> jsnum" where
  "js_mul NaN y = NaN"
| "js_mul x NaN = NaN"
| "js_mul (Fin x) (Fin y) = js_round (x * y)"
| "js_mul (Fin x) y = (if x = 0 then NaN else if 0 < x then y else js_neg y)"
| "js_mul x (Fin y) = (if y = 0 then NaN else if 0 < y then x else js_neg x)"
| "js_mul x y = (if x = y then PInf else NInf)"

text \<open>The division of doubles: \<open>js_div\<close> with its finite results rounded.\<close>

definition js_quot :: "jsnum \<Rightarrow> jsnum \<Rightarrow> jsnum" where
  "js_quot x y = (case js_div x y of Fin q \<Rightarrow> js_round q | r \<Rightarrow> r)"

text \<open>\<open>Math.min\<close> of two numbers.\<close>

definition js_min :: "jsnum \<Rightarrow> jsnum \<Rightarrow> jsnum" where
  "js_min x y = (if isNaN x \<or> isNaN y then NaN else if js_lt y x then y else x)"

section \<open>calculatePositions over JavaScript numbers (lines 240-326)\<close>

text \<open>
  \<open>calculatePositions\<close> once more, line by line as above, on the records the normalizer
  emits: every number is a \<open>jsnum\<close> and every operation is the one of doubles.  The fields
  and functions carry the names of the source with a \<open>J\<close>.
\<close>

record jsPosition =
  symbolJ :: string
  quantityJ :: jsnum
  avgBuyPriceJ :: jsnum
  totalCostJ :: jsnum
  currentPriceJ :: jsnum
  marketValueJ :: jsnum
  unrealizedPnLJ :: jsnum
  unrealizedPnLPercentJ :: jsnum

type_synonym positionsJ = "(string \<times> jsPosition) list"

definition mapHasJ :: "positionsJ \<Rightarrow> string \<Rightarrow> bool" where
  "mapHasJ m k = (map_of m k \<noteq> None)"

fun mapSetJ :: "string \<Rightarrow> jsPosition \<Rightarrow> positionsJ \<Rightarrow> positionsJ" where
  "mapSetJ k v [] = [(k, v)]"
| "mapSetJ k v (e # es) = (if fst e = k then (k, v) # es else e # mapSetJ k v es)"

definition newPositionJ :: "string \<Rightarrow> jsPosition" where
  "newPositionJ key =
     \<lparr> symbolJ = key, quantityJ = Fin 0, avgBuyPriceJ = Fin 0, totalCostJ = Fin 0,
       currentPriceJ = Fin 0, marketValueJ = Fin 0,
       unrealizedPnLJ = Fin 0, unrealizedPnLPercentJ = Fin 0 \<rparr>"

text \<open>Lines 283-317: what one trade does to the position of its symbol.\<close>

definition updatePositionJ :: "jsPosition \<Rightarrow> jsnum Trade \<Rightarrow> jsPosition" where
  "updatePositionJ position trade =
     (if side trade = BUY then
        (let newTotalCost = js_add (totalCostJ position) (js_mul (price trade) (Trade.quantity trade));
             newQuantity = js_add (quantityJ position) (Trade.quantity trade)
         in position\<lparr> avgBuyPriceJ := (if js_lt (Fin 0) newQuantity
                                         then js_quot newTotalCost newQuantity else Fin 0),
                       totalCostJ := newTotalCost,
                       quantityJ := newQuantity \<rparr>)
      else if side trade = SELL then
        (let sellQuantity = js_min (Trade.quantity trade) (quantityJ position)
         in if js_lt (Fin 0) sellQuantity then
              (let soldCost = js_mul (avgBuyPriceJ position) sellQuantity;
                   reduced = position\<lparr> quantityJ := js_sub (quantityJ position) sellQuantity,
                                       totalCostJ := js_sub (totalCostJ position) soldCost \<rparr>
               in if js_lt (Fin 0) (quantityJ reduced)
                  then reduced\<lparr> avgBuyPriceJ := js_quot (totalCostJ reduced) (quantityJ reduced) \<rparr>
                  else reduced\<lparr> avgBuyPriceJ := Fin 0, totalCostJ := Fin 0 \<rparr>)
            else position)
      else position)"

text \<open>Lines 263-320: the body of the \<open>forEach\<close>, on the map.\<close>

definition processTradeJ :: "positionsJ \<Rightarrow> jsnum Trade \<Rightarrow> positionsJ" where
  "processTradeJ m trade =
     (let key = Trade.symbol trade;
          m1 = (if \<not> mapHasJ m key then m @ [(key, newPositionJ key)] else m)
      in case map_of m1 key of
           None \<Rightarrow> m1
         | Some position \<Rightarrow> mapSetJ key (updatePositionJ position trade) m1)"

definition positionOfJ :: "positionsJ \<Rightarrow> string \<Rightarrow> jsPosition" where
  "positionOfJ m key = (case map_of m key of None \<Rightarrow> newPositionJ key | Some position \<Rightarrow> position)"

definition accumulateJ :: "jsnum Trade list \<Rightarrow> positionsJ" where
  "accumulateJ records = foldl processTradeJ [] records"

text \<open>The comparator of lines 244-259; it reads no number of a record.\<close>

definition compareTradesJ :: "'d jslib \<Rightarrow> jsnum Trade \<Rightarrow> jsnum Trade \<Rightarrow> real" where
  "compareTradesJ lib a b =
     (if Trade.symbol a \<noteq> Trade.symbol b then localeCompare lib (Trade.symbol a) (Trade.symbol b)
      else
        (let dateA = getTime lib (parseDate lib (date a));
             dateB = getTime lib (parseDate lib (date b))
         in if dateA \<noteq> dateB then dateA - dateB
            else if side a = BUY \<and> side b = SELL then - 1
            else if side a = SELL \<and> side b = BUY then 1
            else 0))"

definition calculatePositionsJ :: "'d jslib \<Rightarrow> jsnum Trade list \<Rightarrow> jsPosition list" where
  "calculatePositionsJ lib trades =
     filter (\<lambda>pos. js_lt (Fin 0) (quantityJ pos))
       (map snd (accumulateJ (sortBy (compareTradesJ lib) trades)))"

text \<open>
  The expression \<open>abs(totalCost - avgBuyPrice * quantity)\<close> as a program computes it on a
  position.
\<close>

definition residue :: "jsPosition \<Rightarrow> jsnum" where
  "residue pos = js_abs (js_sub (totalCostJ pos) (js_mul (avgBuyPriceJ pos) (quantityJ pos)))"

section \<open>A concrete library and records for the examples\<close>

text \<open>
  An instance of the library parameters on which the examples are evaluated: a \<open>Date\<close> is
  a day number (days since 1 January 1970, UTC), texts compare by code units.  The examples
  use well-formed dates only.
\<close>

definition daysFromCivil :: "int \<Rightarrow> int \<Rightarrow> int \<Rightarrow> int" where
  "daysFromCivil y m d =
     (let y1 = (if m \<le> 2 then y - 1 else y);
          era = y1 div 400;
          yoe = y1 - era * 400;
          doy = (153 * (if m > 2 then m - 3 else m + 9) + 2) div 5 + d - 1;
          doe = yoe * 365 + yoe div 4 - yoe div 100 + doy
      in era * 146097 + doe - 719468)"

fun compareStr :: "string \<Rightarrow> string \<Rightarrow> real" where
  "compareStr [] [] = 0"
| "compareStr [] (y # ys) = - 1"
| "compareStr (x # xs) [] = 1"
| "compareStr (x # xs) (y # ys) =
     (if (of_char x :: nat) < of_char y then - 1
      else if (of_char y :: nat) < of_char x then 1
      else compareStr xs ys)"

definition civil :: "string option \<Rightarrow> string option \<Rightarrow> string option \<Rightarrow> int" where
  "civil year month day =
     (case (year, month, day) of
        (Some y, Some m, Some d) \<Rightarrow>
          daysFromCivil (int (digitsValue y)) (int (digitsValue m)) (int (digitsValue d))
      | _ \<Rightarrow> 0)"

definition utcLib :: "int jslib" where
  "utcLib = \<lparr> localeCompare = compareStr,
              newDate = civil,
              parseISO = (\<lambda>s. let parts = split_str CHR ''-'' s
                               in civil (element parts 0) (element parts 1) (element parts 2)),
              getTime = (\<lambda>d. 86400000 * real_of_int d),
              differenceInDays = (\<lambda>a b. real_of_int (a - b)) \<rparr>"

definition trade :: "string \<Rightarrow> Side \<Rightarrow> real \<Rightarrow> real \<Rightarrow> string \<Rightarrow> real Trade" where
  "trade name sd qty prc day =
     \<lparr> id' = name, Trade.symbol = name, side = sd, Trade.quantity = qty, price = prc,
       date = day, fees = Some 0 \<rparr>"

definition store :: "real Trade list \<Rightarrow> heap" where
  "store ts = (\<lambda>a. if a < length ts then ts ! a else trade [] FEE 0 0 [])"

text \<open>The stores of the examples; the array of trades is the list of their addresses.\<close>

definition singleLot :: heap where
  "singleLot = store [trade ''AAPL'' BUY 100 150 ''7/24/2025'',
                      trade ''AAPL'' SELL 50 160 ''7/25/2025'']"

definition overSold :: heap where
  "overSold = store [trade ''AAPL'' BUY 100 150 ''7/24/2025'',
                     trade ''AAPL'' SELL 150 160 ''7/25/2025'',
                     trade ''AAPL'' SELL 50 170 ''7/26/2025'']"

definition sellFirst :: heap where
  "sellFirst = store [trade ''AAPL'' SELL 50 160 ''7/24/2025'',
                      trade ''AAPL'' BUY 100 150 ''7/25/2025'']"

definition twoLots :: heap where
  "twoLots = store [trade ''TSLA'' BUY 100 250 ''7/24/2025'',
                    trade ''TSLA'' BUY 50 250 ''7/25/2025'',
                    trade ''TSLA'' SELL 120 250 ''7/26/2025'']"

text \<open>Lots of two symbols, the first lot of another symbol than the sell.\<close>

definition mixedLots :: heap where
  "mixedLots = store [trade ''AAPL'' BUY 10 100 ''7/24/2025'',
                      trade ''TSLA'' BUY 100 250 ''7/24/2025'',
                      trade ''TSLA'' BUY 50 280 ''7/25/2025'',
                      trade ''TSLA'' SELL 120 300 ''7/26/2025'']"


text \<open>Records for the examples of \<open>calculatePositions\<close>, not in sorted order.\<close>

definition ledger :: "real Trade list" where
  "ledger = [trade ''TSLA'' SELL 4 260 ''7/25/2025'',
             trade ''AAPL'' BUY 100 10 ''7/24/2025'',
             trade ''AAPL'' BUY 50 20 ''7/25/2025'',
             trade ''TSLA'' BUY 10 250 ''7/24/2025'',
             trade ''AAPL'' SELL 200 30 ''7/26/2025'']"

text \<open>
  Records over JavaScript numbers: two BUY records, the price 10.01 as a program reads it,
  and a BUY record whose price times quantity is beyond the largest double.
\<close>

definition tradeJ :: "string \<Rightarrow> Side \<Rightarrow> jsnum \<Rightarrow> jsnum \<Rightarrow> string \<Rightarrow> jsnum Trade" where
  "tradeJ name sd qty prc day =
     \<lparr> id' = name, Trade.symbol = name, side = sd, Trade.quantity = qty, price = prc,
       date = day, fees = Some (Fin 0) \<rparr>"

definition drift :: "jsnum Trade list" where
  "drift = [tradeJ ''AAPL'' BUY (Fin 2) (Fin 20) ''7/25/2025'',
            tradeJ ''AAPL'' BUY (Fin 1) (js_round (1001 / 100)) ''7/24/2025'']"

definition overflow :: "jsnum Trade list" where
  "overflow = [tradeJ ''AAPL'' BUY (Fin (2 ^ 600)) (Fin (2 ^ 600)) ''7/24/2025'']"

text \<open>A row of the export, its columns in the order of the file.\<close>

definition csvRow :: "string \<Rightarrow> string \<Rightarrow> string \<Rightarrow> string \<Rightarrow> string \<Rightarrow> Row" where
  "csvRow activityDate instrument transCode qty amount =
     \<lparr> Instrument = Some instrument, TransCode = Some transCode, Quantity = Some qty,
       Amount = Some amount, ActivityDate = Some activityDate \<rparr>"

section \<open>Properties of the store and of the loops\<close>

subsection \<open>The store: what the loops write\<close>

lemma frame_refl: "frame h h B"
  by (simp add: frame_def)

lemma frame_trans: "frame h h1 B \<Longrightarrow> frame h1 h2 B \<Longrightarrow> frame h h2 B"
  unfolding frame_def
proof (intro allI conjI)
  fix a
  assume 1: "\<forall>a. h1 a = (h a)\<lparr>Trade.quantity := Trade.quantity (h1 a)\<rparr> \<and>
          Trade.quantity (h1 a) \<le> Trade.quantity (h a) \<and> (a \<notin> B \<longrightarrow> h1 a = h a)"
    and 2: "\<forall>a. h2 a = (h1 a)\<lparr>Trade.quantity := Trade.quantity (h2 a)\<rparr> \<and>
          Trade.quantity (h2 a) \<le> Trade.quantity (h1 a) \<and> (a \<notin> B \<longrightarrow> h2 a = h1 a)"
  from 1 have a1: "h1 a = (h a)\<lparr>Trade.quantity := Trade.quantity (h1 a)\<rparr>" by blast
  from 2 have a2: "h2 a = (h1 a)\<lparr>Trade.quantity := Trade.quantity (h2 a)\<rparr>" by blast
  have "(h1 a)\<lparr>Trade.quantity := Trade.quantity (h2 a)\<rparr> = (h a)\<lparr>Trade.quantity := Trade.quantity (h2 a)\<rparr>"
    by (subst a1) simp
  with a2 show "h2 a = (h a)\<lparr>Trade.quantity := Trade.quantity (h2 a)\<rparr>" by simp
  from 1 2 show "Trade.quantity (h2 a) \<le> Trade.quantity (h a)"
    by (meson order_trans)
  from 1 2 show "a \<notin> B \<longrightarrow> h2 a = h a" by simp
qed

lemma frame_mono: "frame h h' B \<Longrightarrow> B \<subseteq> C \<Longrightarrow> frame h h' C"
  unfolding frame_def by blast

lemma frame_step:
  "0 \<le> m \<Longrightarrow> b \<in> B \<Longrightarrow> frame h (h(b := (h b)\<lparr>Trade.quantity := Trade.quantity (h b) - m\<rparr>)) B"
  by (simp add: frame_def)

lemma matchBuys_frame:
  "matchBuys h bs s r mb = (h', r', mb') \<Longrightarrow> frame h h' (set bs)"
proof (induction bs arbitrary: h r mb)
  case Nil
  then show ?case by (simp add: frame_refl)
next
  case (Cons b bs)
  show ?case
  proof (cases "r > 0 \<and> Trade.symbol (h b) = Trade.symbol (h s) \<and> Trade.quantity (h b) > 0")
    case True
    let ?m = "min r (Trade.quantity (h b))"
    let ?h1 = "h(b := (h b)\<lparr>Trade.quantity := Trade.quantity (h b) - ?m\<rparr>)"
    from True Cons.prems
    have "matchBuys ?h1 bs s (r - ?m) (mb @ [(b, ?m)]) = (h', r', mb')"
      by (simp add: Let_def)
    then have "frame ?h1 h' (set bs)" by (rule Cons.IH)
    then have f2: "frame ?h1 h' (set (b # bs))" by (rule frame_mono) auto
    from True have "0 \<le> ?m" by simp
    then have f1: "frame h ?h1 (set (b # bs))" by (rule frame_step) simp
    from f1 f2 show ?thesis by (rule frame_trans)
  next
    case False
    show ?thesis
    proof (cases "r > 0")
      case True
      with False Cons.prems have "matchBuys h bs s r mb = (h', r', mb')" by auto
      then have "frame h h' (set bs)" by (rule Cons.IH)
      then show ?thesis by (rule frame_mono) auto
    next
      case False
      with Cons.prems have "h' = h" by simp
      then show ?thesis by (simp add: frame_refl)
    qed
  qed
qed


lemma matchSells_heap:
  "fst (matchSells lib h bs ss acc) = last (h # map run_after (sellRuns h bs ss))"
proof (induction ss arbitrary: h acc)
  case Nil
  then show ?case by simp
next
  case (Cons s ss)
  obtain h1 r mb where m: "matchBuys h bs s (Trade.quantity (h s)) [] = (h1, r, mb)"
    by (cases "matchBuys h bs s (Trade.quantity (h s)) []") auto
  show ?case
    by (simp add: m Cons.IH)
qed

lemma sellRuns_frame:
  "r \<in> set (sellRuns h bs ss) \<Longrightarrow>
     frame h (run_before r) (set bs) \<and> frame (run_before r) (run_after r) (set bs)"
proof (induction ss arbitrary: h)
  case Nil
  then show ?case by simp
next
  case (Cons s ss)
  obtain h1 q mb where m: "matchBuys h bs s (Trade.quantity (h s)) [] = (h1, q, mb)"
    by (cases "matchBuys h bs s (Trade.quantity (h s)) []") auto
  have f: "frame h h1 (set bs)" using m by (rule matchBuys_frame)
  from Cons.prems m
  consider "r = \<lparr> run_sell = s, run_before = h, run_after = h1,
            run_remaining = q, run_matched = mb \<rparr>" | "r \<in> set (sellRuns h1 bs ss)"
    by auto
  then show ?case
  proof cases
    case 1
    then show ?thesis using f by (simp add: frame_refl)
  next
    case 2
    then have "frame h1 (run_before r) (set bs) \<and> frame (run_before r) (run_after r) (set bs)"
      by (rule Cons.IH)
    then show ?thesis using f frame_trans by blast
  qed
qed

lemma matchSells_frame: "matchSells lib h bs ss acc = (h', pairs) \<Longrightarrow> frame h h' (set bs)"
proof (induction ss arbitrary: h acc)
  case Nil
  then show ?case by (simp add: frame_refl)
next
  case (Cons s ss)
  obtain h1 q mb where m: "matchBuys h bs s (Trade.quantity (h s)) [] = (h1, q, mb)"
    by (cases "matchBuys h bs s (Trade.quantity (h s)) []") auto
  have f: "frame h h1 (set bs)" using m by (rule matchBuys_frame)
  from Cons.prems m have "matchSells lib h1 bs ss (acc @ pairFor lib h1 s q mb) = (h', pairs)"
    by simp
  then have "frame h1 h' (set bs)" by (rule Cons.IH)
  with f show ?case by (rule frame_trans)
qed

subsection \<open>The sort is a permutation\<close>

lemma set_insertBy: "set (insertBy cmp x xs) = insert x (set xs)"
  by (induction xs) auto

lemma set_sortBy: "set (sortBy cmp xs) = set xs"
  by (induction xs) (simp_all add: sortBy_def set_insertBy)

lemma set_buyTrades: "set (buyTrades lib h trades) = {a \<in> set trades. side (h a) = BUY}"
  by (auto simp: buyTrades_def sortedTrades_def set_sortBy)

lemma set_sellTrades: "set (sellTrades lib h trades) = {a \<in> set trades. side (h a) \<noteq> BUY}"
  by (auto simp: sellTrades_def sortedTrades_def set_sortBy)

lemma calculateFIFOPairs_frame':
  "calculateFIFOPairs lib h trades = (h', pairs) \<Longrightarrow> frame h h' {a \<in> set trades. side (h a) = BUY}"
  unfolding calculateFIFOPairs_def
  by (drule matchSells_frame) (simp add: set_buyTrades)

subsection \<open>Copies are new objects\<close>

lemma copyTrades_old:
  "copyTrades h free as = (h1, free1, copies) \<Longrightarrow> a < free \<Longrightarrow> h1 a = h a"
proof (induction as arbitrary: h free copies h1 free1)
  case Nil
  then show ?case by simp
next
  case (Cons x xs)
  obtain h2 f2 cs where c: "copyTrades (h(free := h x)) (Suc free) xs = (h2, f2, cs)"
    by (cases "copyTrades (h(free := h x)) (Suc free) xs") auto
  from c have "h2 a = (h(free := h x)) a"
    by (rule Cons.IH) (use Cons.prems in simp)
  moreover from c Cons.prems have "h1 = h2" by simp
  ultimately show ?case using Cons.prems by simp
qed

lemma copyTrades_fresh:
  "copyTrades h free as = (h1, free1, copies) \<Longrightarrow> c \<in> set copies \<Longrightarrow> free \<le> c"
proof (induction as arbitrary: h free copies h1 free1)
  case Nil
  then show ?case by simp
next
  case (Cons x xs)
  obtain h2 f2 cs where c: "copyTrades (h(free := h x)) (Suc free) xs = (h2, f2, cs)"
    by (cases "copyTrades (h(free := h x)) (Suc free) xs") auto
  with Cons.prems have "copies = free # cs" by simp
  with Cons.prems consider "c = free" | "c \<in> set cs" by auto
  then show ?case
  proof cases
    case 1
    then show ?thesis by simp
  next
    case 2
    with c have "Suc free \<le> c" by (rule Cons.IH)
    then show ?thesis by simp
  qed
qed

lemma fifoOfCopies_old:
  assumes "a < free"
  shows "fst (fifoOfCopies lib h free parsedTrades) a = h a"
proof -
  obtain h1 f1 cs where c: "copyTrades h free parsedTrades = (h1, f1, cs)"
    by (cases "copyTrades h free parsedTrades") auto
  obtain h2 ps where f: "calculateFIFOPairs lib h1 cs = (h2, ps)"
    by (cases "calculateFIFOPairs lib h1 cs") auto
  have "a \<notin> set cs" using copyTrades_fresh [OF c, of a] assms by auto
  then have "h2 a = h1 a"
    using calculateFIFOPairs_frame' [OF f] by (simp add: frame_def)
  moreover have "h1 a = h a" using c assms by (rule copyTrades_old)
  ultimately show ?thesis by (simp add: fifoOfCopies_def c f)
qed

subsection \<open>Fields a loop leaves alone\<close>

lemma frame_symbol: "frame h h' B \<Longrightarrow> Trade.symbol (h' a) = Trade.symbol (h a)"
proof -
  assume "frame h h' B"
  then have "h' a = (h a)\<lparr>Trade.quantity := Trade.quantity (h' a)\<rparr>" by (simp add: frame_def)
  then have "Trade.symbol (h' a) = Trade.symbol ((h a)\<lparr>Trade.quantity := Trade.quantity (h' a)\<rparr>)"
    by simp
  then show ?thesis by simp
qed



lemma frame_side: "frame h h' B \<Longrightarrow> side (h' a) = side (h a)"
proof -
  assume "frame h h' B"
  then have "h' a = (h a)\<lparr>Trade.quantity := Trade.quantity (h' a)\<rparr>" by (simp add: frame_def)
  then have "side (h' a) = side ((h a)\<lparr>Trade.quantity := Trade.quantity (h' a)\<rparr>)"
    by simp
  then show ?thesis by simp
qed

lemma frame_quantity: "frame h h' B \<Longrightarrow> Trade.quantity (h' a) \<le> Trade.quantity (h a)"
  by (simp add: frame_def)

lemma frame_outside: "frame h h' B \<Longrightarrow> a \<notin> B \<Longrightarrow> h' a = h a"
  by (simp add: frame_def)

subsection \<open>The runs of the outer loop\<close>

lemma sellRuns_sells: "map run_sell (sellRuns h bs ss) = ss"
proof (induction ss arbitrary: h)
  case Nil
  then show ?case by simp
next
  case (Cons s ss)
  obtain h1 q mb where m: "matchBuys h bs s (Trade.quantity (h s)) [] = (h1, q, mb)"
    by (cases "matchBuys h bs s (Trade.quantity (h s)) []") auto
  show ?case by (simp add: m Cons.IH)
qed

lemma sellRuns_matchBuys:
  "r \<in> set (sellRuns h bs ss) \<Longrightarrow>
     matchBuys (run_before r) bs (run_sell r) (Trade.quantity (run_before r (run_sell r))) []
       = (run_after r, run_remaining r, run_matched r)"
proof (induction ss arbitrary: h)
  case Nil
  then show ?case by simp
next
  case (Cons s ss)
  obtain h1 q mb where m: "matchBuys h bs s (Trade.quantity (h s)) [] = (h1, q, mb)"
    by (cases "matchBuys h bs s (Trade.quantity (h s)) []") auto
  from Cons.prems m
  consider "r = \<lparr> run_sell = s, run_before = h, run_after = h1,
            run_remaining = q, run_matched = mb \<rparr>" | "r \<in> set (sellRuns h1 bs ss)"
    by auto
  then show ?case
  proof cases
    case 1
    then show ?thesis by (simp add: m)
  next
    case 2
    then show ?thesis by (rule Cons.IH)
  qed
qed

lemma sellRuns_between:
  "i < j \<Longrightarrow> j < length (sellRuns h bs ss) \<Longrightarrow>
     frame (run_after (sellRuns h bs ss ! i)) (run_before (sellRuns h bs ss ! j)) (set bs)"
proof (induction ss arbitrary: h i j)
  case Nil
  then show ?case by simp
next
  case (Cons s ss)
  obtain h1 q mb where m: "matchBuys h bs s (Trade.quantity (h s)) [] = (h1, q, mb)"
    by (cases "matchBuys h bs s (Trade.quantity (h s)) []") auto
  let ?r0 = "\<lparr> run_sell = s, run_before = h, run_after = h1,
            run_remaining = q, run_matched = mb \<rparr>"
  have rs: "sellRuns h bs (s # ss) = ?r0 # sellRuns h1 bs ss" by (simp add: m)
  from Cons.prems obtain j' where j': "j = Suc j'" by (cases j) auto
  with Cons.prems rs have lj: "j' < length (sellRuns h1 bs ss)" by (simp del: sellRuns.simps)
  show ?case
  proof (cases i)
    case 0
    have "sellRuns h1 bs ss ! j' \<in> set (sellRuns h1 bs ss)" using lj by simp
    then have "frame h1 (run_before (sellRuns h1 bs ss ! j')) (set bs)"
      using sellRuns_frame by blast
    then show ?thesis by (simp add: rs 0 j' del: sellRuns.simps)
  next
    case (Suc i')
    with Cons.prems j' have "i' < j'" by simp
    then have "frame (run_after (sellRuns h1 bs ss ! i')) (run_before (sellRuns h1 bs ss ! j')) (set bs)"
      using lj by (rule Cons.IH)
    then show ?thesis by (simp add: rs Suc j' del: sellRuns.simps)
  qed
qed

lemma sellRuns_last:
  "frame h (last (h # map run_after (sellRuns h bs ss))) (set bs)"
proof (induction ss arbitrary: h)
  case Nil
  then show ?case by (simp add: frame_refl)
next
  case (Cons s ss)
  obtain h1 q mb where m: "matchBuys h bs s (Trade.quantity (h s)) [] = (h1, q, mb)"
    by (cases "matchBuys h bs s (Trade.quantity (h s)) []") auto
  have l: "last (h # map run_after (sellRuns h bs (s # ss))) = last (h1 # map run_after (sellRuns h1 bs ss))"
    by (simp add: m)
  have "frame h h1 (set bs)" using m by (rule matchBuys_frame)
  moreover have "frame h1 (last (h1 # map run_after (sellRuns h1 bs ss))) (set bs)"
    by (rule Cons.IH)
  ultimately show ?case by (simp only: l) (rule frame_trans)
qed

lemma sellRuns_final:
  "r \<in> set (sellRuns h bs ss) \<Longrightarrow>
     frame (run_after r) (last (h # map run_after (sellRuns h bs ss))) (set bs)"
proof (induction ss arbitrary: h)
  case Nil
  then show ?case by simp
next
  case (Cons s ss)
  obtain h1 q mb where m: "matchBuys h bs s (Trade.quantity (h s)) [] = (h1, q, mb)"
    by (cases "matchBuys h bs s (Trade.quantity (h s)) []") auto
  let ?r0 = "\<lparr> run_sell = s, run_before = h, run_after = h1,
            run_remaining = q, run_matched = mb \<rparr>"
  have rs: "sellRuns h bs (s # ss) = ?r0 # sellRuns h1 bs ss" by (simp add: m)
  have l: "last (h # map run_after (sellRuns h bs (s # ss))) = last (h1 # map run_after (sellRuns h1 bs ss))"
    by (simp add: m)
  from Cons.prems have "r \<in> set (?r0 # sellRuns h1 bs ss)" by (simp only: rs)
  then consider "r = ?r0" | "r \<in> set (sellRuns h1 bs ss)" by auto
  then show ?case
  proof cases
    case 1
    have "frame h1 (last (h1 # map run_after (sellRuns h1 bs ss))) (set bs)"
      by (rule sellRuns_last)
    then show ?thesis by (simp only: l 1) simp
  next
    case 2
    then show ?thesis by (simp only: l) (rule Cons.IH)
  qed
qed


subsection \<open>The inner loop, step by step\<close>

lemma matchBuys_stop: "r \<le> 0 \<Longrightarrow> matchBuys h bs s r mb = (h, r, mb)"
  by (cases bs) simp_all

lemma matchBuys_skip:
  "\<not> (Trade.symbol (h b) = Trade.symbol (h s) \<and> Trade.quantity (h b) > 0) \<Longrightarrow>
     matchBuys h (b # bs) s r mb = matchBuys h bs s r mb"
  by (cases "r > 0") (auto simp: matchBuys_stop)

lemma matchBuys_take:
  "r > 0 \<Longrightarrow> Trade.symbol (h b) = Trade.symbol (h s) \<Longrightarrow> Trade.quantity (h b) > 0 \<Longrightarrow>
     matchBuys h (b # bs) s r mb =
       matchBuys (h(b := (h b)\<lparr>Trade.quantity := Trade.quantity (h b) - min r (Trade.quantity (h b))\<rparr>))
         bs s (r - min r (Trade.quantity (h b))) (mb @ [(b, min r (Trade.quantity (h b)))])"
  by (simp add: Let_def)

declare matchBuys.simps(2) [simp del]

lemma upd_symbol:
  "Trade.symbol ((h(b := (h b)\<lparr>Trade.quantity := q\<rparr>)) a) = Trade.symbol (h a)"
  by simp

lemma matchBuys_none:
  "\<forall>b\<in>set bs. Trade.symbol (h b) = Trade.symbol (h s) \<longrightarrow> Trade.quantity (h b) \<le> 0 \<Longrightarrow>
     matchBuys h bs s r mb = (h, r, mb)"
proof (induction bs)
  case Nil
  then show ?case by simp
next
  case (Cons b bs)
  then have "\<not> (Trade.symbol (h b) = Trade.symbol (h s) \<and> Trade.quantity (h b) > 0)" by auto
  then have "matchBuys h (b # bs) s r mb = matchBuys h bs s r mb" by (rule matchBuys_skip)
  with Cons show ?case by simp
qed

lemma matchBuys_acc:
  "matchBuys h bs s r mb = (h', r', mb') \<Longrightarrow>
     \<exists>ms. mb' = mb @ ms \<and> matchBuys h bs s r [] = (h', r', ms)"
proof (induction bs arbitrary: h r mb h' r' mb')
  case Nil
  then show ?case by simp
next
  case (Cons b bs)
  show ?case
  proof (cases "r > 0 \<and> Trade.symbol (h b) = Trade.symbol (h s) \<and> Trade.quantity (h b) > 0")
    case True
    let ?m = "min r (Trade.quantity (h b))"
    let ?h1 = "h(b := (h b)\<lparr>Trade.quantity := Trade.quantity (h b) - ?m\<rparr>)"
    from True Cons.prems
    have "matchBuys ?h1 bs s (r - ?m) (mb @ [(b, ?m)]) = (h', r', mb')"
      by (simp add: matchBuys_take)
    then obtain ms where ms: "mb' = (mb @ [(b, ?m)]) @ ms" "matchBuys ?h1 bs s (r - ?m) [] = (h', r', ms)"
      using Cons.IH by blast
    have "matchBuys h (b # bs) s r [] = matchBuys ?h1 bs s (r - ?m) ([] @ [(b, ?m)])"
      using True by (simp add: matchBuys_take)
    moreover obtain h2 r2 mb2 where x: "matchBuys ?h1 bs s (r - ?m) ([] @ [(b, ?m)]) = (h2, r2, mb2)"
      by (cases "matchBuys ?h1 bs s (r - ?m) ([] @ [(b, ?m)])") auto
    moreover from x obtain ms2 where "mb2 = ([] @ [(b, ?m)]) @ ms2" "matchBuys ?h1 bs s (r - ?m) [] = (h2, r2, ms2)"
      using Cons.IH by blast
    ultimately have "matchBuys h (b # bs) s r [] = (h', r', (b, ?m) # ms)"
      using ms by simp
    with ms show ?thesis by simp
  next
    case False
    show ?thesis
    proof (cases "r > 0")
      case True
      from False have sk: "\<And>acc. matchBuys h (b # bs) s r acc = matchBuys h bs s r acc"
        using True by (intro matchBuys_skip) simp
      with Cons.prems have "matchBuys h bs s r mb = (h', r', mb')" by simp
      then obtain ms where "mb' = mb @ ms" "matchBuys h bs s r [] = (h', r', ms)"
        using Cons.IH by blast
      then show ?thesis using sk by simp
    next
      case False
      then have st: "\<And>acc. matchBuys h (b # bs) s r acc = (h, r, acc)" by (simp add: matchBuys_stop)
      with Cons.prems have "h' = h" "r' = r" "mb' = mb" by simp_all
      then show ?thesis using st by simp
    qed
  qed
qed

lemma matchBuys_cons:
  assumes "r > 0" "Trade.symbol (h b) = Trade.symbol (h s)" "Trade.quantity (h b) > 0"
    and "matchBuys (h(b := (h b)\<lparr>Trade.quantity := Trade.quantity (h b) - min r (Trade.quantity (h b))\<rparr>))
           bs s (r - min r (Trade.quantity (h b))) [] = (h', r', ms)"
  shows "matchBuys h (b # bs) s r [] = (h', r', (b, min r (Trade.quantity (h b))) # ms)"
proof -
  let ?m = "min r (Trade.quantity (h b))"
  let ?h1 = "h(b := (h b)\<lparr>Trade.quantity := Trade.quantity (h b) - ?m\<rparr>)"
  obtain h2 r2 mb2 where x: "matchBuys ?h1 bs s (r - ?m) [(b, ?m)] = (h2, r2, mb2)"
    by (cases "matchBuys ?h1 bs s (r - ?m) [(b, ?m)]") auto
  then obtain ms2 where "mb2 = [(b, ?m)] @ ms2" "matchBuys ?h1 bs s (r - ?m) [] = (h2, r2, ms2)"
    using matchBuys_acc by blast
  with assms(4) x have "matchBuys ?h1 bs s (r - ?m) [(b, ?m)] = (h', r', (b, ?m) # ms)" by simp
  then show ?thesis using assms(1-3) by (simp add: matchBuys_take)
qed


lemma matchBuys_cases [consumes 1, case_names stop skip take]:
  assumes "matchBuys h (b # bs) s r [] = (h', r', ms)"
    and "r \<le> 0 \<Longrightarrow> h' = h \<Longrightarrow> r' = r \<Longrightarrow> ms = [] \<Longrightarrow> P"
    and "r > 0 \<Longrightarrow> \<not> (Trade.symbol (h b) = Trade.symbol (h s) \<and> Trade.quantity (h b) > 0) \<Longrightarrow>
           matchBuys h bs s r [] = (h', r', ms) \<Longrightarrow> P"
    and "\<And>ms1. r > 0 \<Longrightarrow> Trade.symbol (h b) = Trade.symbol (h s) \<Longrightarrow> Trade.quantity (h b) > 0 \<Longrightarrow>
           matchBuys (h(b := (h b)\<lparr>Trade.quantity := Trade.quantity (h b) - min r (Trade.quantity (h b))\<rparr>))
             bs s (r - min r (Trade.quantity (h b))) [] = (h', r', ms1) \<Longrightarrow>
           ms = (b, min r (Trade.quantity (h b))) # ms1 \<Longrightarrow> P"
  shows P
proof (cases "r > 0")
  case False
  then have "matchBuys h (b # bs) s r [] = (h, r, [])" by (simp add: matchBuys_stop)
  with assms(1) have "h' = h" "r' = r" "ms = []" by simp_all
  with False assms(2) show P by simp
next
  case True
  show P
  proof (cases "Trade.symbol (h b) = Trade.symbol (h s) \<and> Trade.quantity (h b) > 0")
    case False
    then have "matchBuys h (b # bs) s r [] = matchBuys h bs s r []" by (rule matchBuys_skip)
    with assms(1) have "matchBuys h bs s r [] = (h', r', ms)" by simp
    with True False assms(3) show P by blast
  next
    case el: True
    let ?m = "min r (Trade.quantity (h b))"
    let ?h1 = "h(b := (h b)\<lparr>Trade.quantity := Trade.quantity (h b) - ?m\<rparr>)"
    obtain h2 r2 ms2 where x: "matchBuys ?h1 bs s (r - ?m) [] = (h2, r2, ms2)"
      by (cases "matchBuys ?h1 bs s (r - ?m) []") auto
    with True el have "matchBuys h (b # bs) s r [] = (h2, r2, (b, ?m) # ms2)"
      by (intro matchBuys_cons) simp_all
    with assms(1) have "h2 = h'" "r2 = r'" "ms = (b, ?m) # ms2" by simp_all
    with x True el assms(4) show P by blast
  qed
qed

lemma matchBuys_matched:
  "matchBuys h bs s r [] = (h', r', ms) \<Longrightarrow>
     (\<forall>m\<in>set ms. snd m > 0 \<and> Trade.symbol (h (fst m)) = Trade.symbol (h s) \<and> fst m \<in> set bs \<and>
        Trade.quantity (h' (fst m)) \<le> Trade.quantity (h (fst m)) - snd m) \<and>
     subseq (map fst ms) bs \<and> (ms \<noteq> [] \<longrightarrow> r > 0) \<and> r' = r - sum_list (map snd ms)"
proof (induction bs arbitrary: h r h' r' ms)
  case Nil
  then show ?case by auto
next
  case (Cons b bs)
  from Cons.prems show ?case
  proof (cases rule: matchBuys_cases)
    case stop
    then show ?thesis by simp
  next
    case skip
    from skip(3) have "(\<forall>m\<in>set ms. snd m > 0 \<and> Trade.symbol (h (fst m)) = Trade.symbol (h s) \<and> fst m \<in> set bs \<and>
        Trade.quantity (h' (fst m)) \<le> Trade.quantity (h (fst m)) - snd m) \<and>
     subseq (map fst ms) bs \<and> (ms \<noteq> [] \<longrightarrow> r > 0) \<and> r' = r - sum_list (map snd ms)"
      by (rule Cons.IH)
    then show ?thesis by (auto intro: subseq_Cons')
  next
    case (take ms1)
    let ?m = "min r (Trade.quantity (h b))"
    let ?h1 = "h(b := (h b)\<lparr>Trade.quantity := Trade.quantity (h b) - ?m\<rparr>)"
    from take(4) have ih: "(\<forall>m\<in>set ms1. snd m > 0 \<and> Trade.symbol (?h1 (fst m)) = Trade.symbol (?h1 s) \<and> fst m \<in> set bs \<and>
        Trade.quantity (h' (fst m)) \<le> Trade.quantity (?h1 (fst m)) - snd m) \<and>
     subseq (map fst ms1) bs \<and> (ms1 \<noteq> [] \<longrightarrow> r - ?m > 0) \<and> r' = r - ?m - sum_list (map snd ms1)"
      by (rule Cons.IH)
    have fr: "frame ?h1 h' (set bs)" using take(4) by (rule matchBuys_frame)
    have mpos: "?m > 0" using take(1,3) by simp
    have q1: "\<And>a. Trade.quantity (?h1 a) \<le> Trade.quantity (h a)" using mpos by simp
    have hb: "Trade.quantity (h' b) \<le> Trade.quantity (h b) - ?m"
      using frame_quantity [OF fr, of b] by simp
    have "\<forall>m\<in>set ms1. snd m > 0 \<and> Trade.symbol (h (fst m)) = Trade.symbol (h s) \<and> fst m \<in> set (b # bs) \<and>
        Trade.quantity (h' (fst m)) \<le> Trade.quantity (h (fst m)) - snd m"
    proof
      fix m assume "m \<in> set ms1"
      with ih have a: "snd m > 0" "Trade.symbol (?h1 (fst m)) = Trade.symbol (?h1 s)" "fst m \<in> set bs"
        "Trade.quantity (h' (fst m)) \<le> Trade.quantity (?h1 (fst m)) - snd m" by blast+
      from a(2) have "Trade.symbol (h (fst m)) = Trade.symbol (h s)" by (simp only: upd_symbol)
      moreover from a(4) q1 [of "fst m"] have "Trade.quantity (h' (fst m)) \<le> Trade.quantity (h (fst m)) - snd m"
        by linarith
      ultimately show "snd m > 0 \<and> Trade.symbol (h (fst m)) = Trade.symbol (h s) \<and> fst m \<in> set (b # bs) \<and>
        Trade.quantity (h' (fst m)) \<le> Trade.quantity (h (fst m)) - snd m"
        using a(1,3) by simp
    qed
    with ih hb mpos take(1,2,5) show ?thesis by simp
  qed
qed

lemma matchBuys_exhausts:
  "matchBuys h bs s r [] = (h', r', ms) \<Longrightarrow> r' > 0 \<Longrightarrow>
     \<forall>b\<in>set bs. Trade.symbol (h b) = Trade.symbol (h s) \<longrightarrow> Trade.quantity (h' b) \<le> 0"
proof (induction bs arbitrary: h r h' r' ms)
  case Nil
  then show ?case by simp
next
  case (Cons b bs)
  from Cons.prems(1) show ?case
  proof (cases rule: matchBuys_cases)
    case stop
    with Cons.prems(2) show ?thesis by simp
  next
    case skip
    from skip(3) Cons.prems(2)
    have ih: "\<forall>b\<in>set bs. Trade.symbol (h b) = Trade.symbol (h s) \<longrightarrow> Trade.quantity (h' b) \<le> 0"
      by (rule Cons.IH)
    have "frame h h' (set bs)" using skip(3) by (rule matchBuys_frame)
    then have "Trade.quantity (h' b) \<le> Trade.quantity (h b)" by (rule frame_quantity)
    with skip(2) ih show ?thesis by auto
  next
    case (take ms1)
    let ?q = "Trade.quantity (h b)"
    let ?m = "min r ?q"
    let ?h1 = "h(b := (h b)\<lparr>Trade.quantity := ?q - ?m\<rparr>)"
    from take(4) Cons.prems(2)
    have ih: "\<forall>x\<in>set bs. Trade.symbol (?h1 x) = Trade.symbol (?h1 s) \<longrightarrow> Trade.quantity (h' x) \<le> 0"
      by (rule Cons.IH)
    then have ih': "\<forall>x\<in>set bs. Trade.symbol (h x) = Trade.symbol (h s) \<longrightarrow> Trade.quantity (h' x) \<le> 0"
      by (simp only: upd_symbol)
    have "r' = r - ?m - sum_list (map snd ms1) \<and> (\<forall>m\<in>set ms1. snd m > 0)"
      using matchBuys_matched [OF take(4)] by blast
    moreover have "(\<forall>m\<in>set ms1. snd m > 0) \<longrightarrow> 0 \<le> sum_list (map snd ms1)"
      by (induction ms1) auto
    ultimately have "r - ?m > 0" using Cons.prems(2) by linarith
    then have "?m = ?q" by simp
    then have "Trade.quantity (?h1 b) = 0" by simp
    moreover have "frame ?h1 h' (set bs)" using take(4) by (rule matchBuys_frame)
    then have "Trade.quantity (h' b) \<le> Trade.quantity (?h1 b)" by (rule frame_quantity)
    ultimately have "Trade.quantity (h' b) \<le> 0" by simp
    with ih' show ?thesis by simp
  qed
qed

subsection \<open>The contributions of one sell\<close>






subsection \<open>Pairs and runs of calculateFIFOPairs\<close>




lemma calculateFIFOPairs_heap:
  "fst (calculateFIFOPairs lib h trades) = last (h # map run_after (fifoRuns lib h trades))"
  by (simp add: calculateFIFOPairs_def fifoRuns_def matchSells_heap)

lemma fifoRuns_frame:
  assumes "r \<in> set (fifoRuns lib h trades)"
  shows "frame h (run_before r) (set (buyTrades lib h trades))"
    and "frame (run_before r) (run_after r) (set (buyTrades lib h trades))"
    and "frame h (run_after r) (set (buyTrades lib h trades))"
    and "frame (run_after r) (fst (calculateFIFOPairs lib h trades)) (set (buyTrades lib h trades))"
proof -
  from assms have r: "r \<in> set (sellRuns h (buyTrades lib h trades) (sellTrades lib h trades))"
    by (simp add: fifoRuns_def)
  from sellRuns_frame [OF r]
  show 1: "frame h (run_before r) (set (buyTrades lib h trades))"
    and 2: "frame (run_before r) (run_after r) (set (buyTrades lib h trades))" by blast+
  from 1 2 show "frame h (run_after r) (set (buyTrades lib h trades))" by (rule frame_trans)
  from sellRuns_final [OF r]
  show "frame (run_after r) (fst (calculateFIFOPairs lib h trades)) (set (buyTrades lib h trades))"
    by (simp add: calculateFIFOPairs_heap fifoRuns_def)
qed

lemma fifoRuns_sell:
  assumes "r \<in> set (fifoRuns lib h trades)"
  shows "run_sell r \<in> set (sellTrades lib h trades)"
    and "run_before r (run_sell r) = h (run_sell r)"
    and "run_after r (run_sell r) = h (run_sell r)"
proof -
  have "map run_sell (fifoRuns lib h trades) = sellTrades lib h trades"
    by (simp add: fifoRuns_def sellRuns_sells)
  then have "set (sellTrades lib h trades) = run_sell ` set (fifoRuns lib h trades)"
    by (metis set_map)
  with assms show s: "run_sell r \<in> set (sellTrades lib h trades)" by blast
  then have "run_sell r \<notin> set (buyTrades lib h trades)"
    by (simp add: set_buyTrades set_sellTrades)
  then show "run_before r (run_sell r) = h (run_sell r)" "run_after r (run_sell r) = h (run_sell r)"
    using fifoRuns_frame(1,3) [OF assms] frame_outside by blast+
qed

lemma fifoRuns_matchBuys:
  assumes "r \<in> set (fifoRuns lib h trades)"
  shows "matchBuys (run_before r) (buyTrades lib h trades) (run_sell r)
           (Trade.quantity (h (run_sell r))) [] = (run_after r, run_remaining r, run_matched r)"
proof -
  from assms have "r \<in> set (sellRuns h (buyTrades lib h trades) (sellTrades lib h trades))"
    by (simp add: fifoRuns_def)
  then have "matchBuys (run_before r) (buyTrades lib h trades) (run_sell r)
      (Trade.quantity (run_before r (run_sell r))) [] = (run_after r, run_remaining r, run_matched r)"
    by (rule sellRuns_matchBuys)
  then show ?thesis by (simp add: fifoRuns_sell(2) [OF assms])
qed

lemma fifoRuns_symbol:
  assumes "r \<in> set (fifoRuns lib h trades)"
  shows "Trade.symbol (run_before r a) = Trade.symbol (h a)"
  using fifoRuns_frame(1) [OF assms] by (rule frame_symbol)

lemma sellRuns_first: "0 < length (sellRuns h bs ss) \<Longrightarrow> run_before (sellRuns h bs ss ! 0) = h"
proof (cases ss)
  case Nil
  then show "0 < length (sellRuns h bs ss) \<Longrightarrow> ?thesis" by simp
next
  case (Cons s ss')
  obtain h1 q mb where m: "matchBuys h bs s (Trade.quantity (h s)) [] = (h1, q, mb)"
    by (cases "matchBuys h bs s (Trade.quantity (h s)) []") auto
  show ?thesis by (simp add: Cons m)
qed

lemma sellRuns_chain:
  "Suc i < length (sellRuns h bs ss) \<Longrightarrow>
     run_before (sellRuns h bs ss ! Suc i) = run_after (sellRuns h bs ss ! i)"
proof (induction ss arbitrary: h i)
  case Nil
  then show ?case by simp
next
  case (Cons s ss)
  obtain h1 q mb where m: "matchBuys h bs s (Trade.quantity (h s)) [] = (h1, q, mb)"
    by (cases "matchBuys h bs s (Trade.quantity (h s)) []") auto
  let ?r0 = "\<lparr> run_sell = s, run_before = h, run_after = h1,
            run_remaining = q, run_matched = mb \<rparr>"
  have rs: "sellRuns h bs (s # ss) = ?r0 # sellRuns h1 bs ss" by (simp add: m)
  from Cons.prems have l: "i < length (sellRuns h1 bs ss)" by (simp add: rs del: sellRuns.simps)
  show ?case
  proof (cases i)
    case 0
    from l 0 have "run_before (sellRuns h1 bs ss ! 0) = h1" by (intro sellRuns_first) simp
    then show ?thesis by (simp add: rs 0 del: sellRuns.simps)
  next
    case (Suc k)
    with l have "Suc k < length (sellRuns h1 bs ss)" by simp
    then have "run_before (sellRuns h1 bs ss ! Suc k) = run_after (sellRuns h1 bs ss ! k)"
      by (rule Cons.IH)
    then show ?thesis by (simp add: rs Suc del: sellRuns.simps)
  qed
qed


subsection \<open>Sorted order and first-in, first-out\<close>

lemma consistentOn_subset: "consistentOn cmp A \<Longrightarrow> B \<subseteq> A \<Longrightarrow> consistentOn cmp B"
  unfolding consistentOn_def by blast

lemma consistentOn_total:
  "consistentOn cmp A \<Longrightarrow> a \<in> A \<Longrightarrow> b \<in> A \<Longrightarrow> cmp a b > 0 \<Longrightarrow> cmp b a \<le> 0"
  unfolding consistentOn_def by blast

lemma consistentOn_trans:
  "consistentOn cmp A \<Longrightarrow> a \<in> A \<Longrightarrow> b \<in> A \<Longrightarrow> c \<in> A \<Longrightarrow>
     cmp a b \<le> 0 \<Longrightarrow> cmp b c \<le> 0 \<Longrightarrow> cmp a c \<le> 0"
  unfolding consistentOn_def by blast

lemma sorted_insertBy:
  "consistentOn cmp (insert x (set xs)) \<Longrightarrow> sorted_wrt (\<lambda>a b. cmp a b \<le> 0) xs \<Longrightarrow>
     sorted_wrt (\<lambda>a b. cmp a b \<le> 0) (insertBy cmp x xs)"
proof (induction xs)
  case Nil
  then show ?case by simp
next
  case (Cons y ys)
  have tot: "cmp x y > 0 \<longrightarrow> cmp y x \<le> 0"
    using consistentOn_total [OF Cons.prems(1), of x y] by simp
  have tr: "\<forall>z\<in>set ys. cmp x y \<le> 0 \<and> cmp y z \<le> 0 \<longrightarrow> cmp x z \<le> 0"
    using consistentOn_trans [OF Cons.prems(1), of x y] by simp
  from Cons.prems(2) have sy: "sorted_wrt (\<lambda>a b. cmp a b \<le> 0) ys"
    and ly: "\<forall>z\<in>set ys. cmp y z \<le> 0" by simp_all
  have "consistentOn cmp (insert x (set ys))"
    using Cons.prems(1) by (rule consistentOn_subset) auto
  then have ih: "sorted_wrt (\<lambda>a b. cmp a b \<le> 0) (insertBy cmp x ys)" using sy by (rule Cons.IH)
  show ?case
  proof (cases "cmp x y > 0")
    case True
    then have "insertBy cmp x (y # ys) = y # insertBy cmp x ys" by simp
    moreover from True tot ly have "\<forall>z\<in>set (insertBy cmp x ys). cmp y z \<le> 0"
      by (simp add: set_insertBy)
    ultimately show ?thesis using ih by simp
  next
    case False
    then have "insertBy cmp x (y # ys) = x # y # ys" by simp
    moreover from False tr ly have "\<forall>z\<in>set (y # ys). cmp x z \<le> 0" by simp
    ultimately show ?thesis using Cons.prems(2) by simp
  qed
qed

lemma sorted_sortBy:
  "consistentOn cmp (set xs) \<Longrightarrow> sorted_wrt (\<lambda>a b. cmp a b \<le> 0) (sortBy cmp xs)"
proof (induction xs)
  case Nil
  then show ?case by (simp add: sortBy_def)
next
  case (Cons x xs)
  have "consistentOn cmp (set xs)" using Cons.prems by (rule consistentOn_subset) auto
  then have "sorted_wrt (\<lambda>a b. cmp a b \<le> 0) (sortBy cmp xs)" by (rule Cons.IH)
  moreover have "consistentOn cmp (insert x (set (sortBy cmp xs)))"
    using Cons.prems by (simp add: set_sortBy)
  ultimately have "sorted_wrt (\<lambda>a b. cmp a b \<le> 0) (insertBy cmp x (sortBy cmp xs))"
    by (intro sorted_insertBy)
  then show ?case by (simp add: sortBy_def)
qed

lemma distinct_insertBy: "distinct (insertBy cmp x xs) = (x \<notin> set xs \<and> distinct xs)"
  by (induction xs) (auto simp: set_insertBy)

lemma distinct_sortBy: "distinct (sortBy cmp xs) = distinct xs"
  by (induction xs) (simp_all add: sortBy_def distinct_insertBy set_sortBy [unfolded sortBy_def])

lemma distinct_buyTrades: "distinct trades \<Longrightarrow> distinct (buyTrades lib h trades)"
  by (simp add: buyTrades_def sortedTrades_def distinct_sortBy)

lemma compareTrades_dates:
  "compareTrades lib a b \<le> 0 \<Longrightarrow> Trade.symbol a = Trade.symbol b \<Longrightarrow>
     getTime lib (parseDate lib (date a)) \<le> getTime lib (parseDate lib (date b))"
  by (cases "getTime lib (parseDate lib (date a)) = getTime lib (parseDate lib (date b))")
     (simp_all add: compareTrades_def Let_def)

lemma buyTrades_chronological:
  assumes "consistentOn (\<lambda>a b. compareTrades lib (h a) (h b)) (set trades)"
    and "i < j" "j < length (buyTrades lib h trades)"
    and "Trade.symbol (h (buyTrades lib h trades ! i)) = Trade.symbol (h (buyTrades lib h trades ! j))"
  shows "getTime lib (parseDate lib (date (h (buyTrades lib h trades ! i))))
           \<le> getTime lib (parseDate lib (date (h (buyTrades lib h trades ! j))))"
proof -
  have "sorted_wrt (\<lambda>a b. compareTrades lib (h a) (h b) \<le> 0) (sortedTrades lib h trades)"
    unfolding sortedTrades_def using assms(1) by (rule sorted_sortBy)
  then have "sorted_wrt (\<lambda>a b. compareTrades lib (h a) (h b) \<le> 0) (buyTrades lib h trades)"
    unfolding buyTrades_def by (rule sorted_wrt_filter)
  then have "compareTrades lib (h (buyTrades lib h trades ! i)) (h (buyTrades lib h trades ! j)) \<le> 0"
    using assms(2,3) by (simp add: sorted_wrt_iff_nth_less)
  then show ?thesis using assms(4) by (rule compareTrades_dates)
qed

lemma matchBuys_fifo:
  "distinct bs \<Longrightarrow> matchBuys h bs s r [] = (h', r', ms) \<Longrightarrow> i < j \<Longrightarrow> j < length bs \<Longrightarrow>
     bs ! j \<in> fst ` set ms \<Longrightarrow> Trade.symbol (h (bs ! i)) = Trade.symbol (h s) \<Longrightarrow>
     Trade.quantity (h' (bs ! i)) \<le> 0"
proof (induction bs arbitrary: h r h' r' ms i j)
  case Nil
  then show ?case by simp
next
  case (Cons b bs)
  from Cons.prems(3) obtain j' where j: "j = Suc j'" by (cases j) auto
  with Cons.prems(4) have lj: "j' < length bs" by simp
  from Cons.prems(1) have d: "distinct bs" and nb: "bs ! j' \<noteq> b" using lj by auto
  from Cons.prems(2) show ?case
  proof (cases rule: matchBuys_cases)
    case stop
    with Cons.prems(5) show ?thesis by simp
  next
    case skip
    have fr: "frame h h' (set bs)" using skip(3) by (rule matchBuys_frame)
    show ?thesis
    proof (cases i)
      case 0
      with Cons.prems(6) skip(2) have "Trade.quantity (h b) \<le> 0" by simp
      moreover have "Trade.quantity (h' b) \<le> Trade.quantity (h b)" using fr by (rule frame_quantity)
      ultimately show ?thesis using 0 by simp
    next
      case (Suc i')
      with Cons.prems(3) j have "i' < j'" by simp
      moreover from Cons.prems(5) j have "bs ! j' \<in> fst ` set ms" by simp
      moreover from Cons.prems(6) Suc have "Trade.symbol (h (bs ! i')) = Trade.symbol (h s)" by simp
      ultimately have "Trade.quantity (h' (bs ! i')) \<le> 0"
        using d skip(3) lj by (intro Cons.IH [of h r h' r' ms i' j'])
      then show ?thesis by (simp add: Suc)
    qed
  next
    case (take ms1)
    let ?q = "Trade.quantity (h b)"
    let ?m = "min r ?q"
    let ?h1 = "h(b := (h b)\<lparr>Trade.quantity := ?q - ?m\<rparr>)"
    have fr: "frame ?h1 h' (set bs)" using take(4) by (rule matchBuys_frame)
    from Cons.prems(5) j take(5) nb have in1: "bs ! j' \<in> fst ` set ms1" by auto
    then have "ms1 \<noteq> []" by auto
    with matchBuys_matched [OF take(4)] have "r - ?m > 0" by blast
    then have "?m = ?q" by simp
    then have z: "Trade.quantity (?h1 b) = 0" by simp
    show ?thesis
    proof (cases i)
      case 0
      have "Trade.quantity (h' b) \<le> Trade.quantity (?h1 b)" using fr by (rule frame_quantity)
      with z 0 show ?thesis by simp
    next
      case (Suc i')
      with Cons.prems(3) j have "i' < j'" by simp
      moreover from Cons.prems(6) Suc have "Trade.symbol (h (bs ! i')) = Trade.symbol (h s)" by simp
      then have "Trade.symbol (?h1 (bs ! i')) = Trade.symbol (?h1 s)" by (simp only: upd_symbol)
      ultimately have "Trade.quantity (h' (bs ! i')) \<le> 0"
        using d take(4) lj in1 by (intro Cons.IH [of ?h1 "r - ?m" h' r' ms1 i' j'])
      then show ?thesis by (simp add: Suc)
    qed
  qed
qed

subsection \<open>The position map and its invariants\<close>

lemma map_of_mapSet: "map_of (mapSet k v m) = (map_of m)(k \<mapsto> v)"
  by (induction m) (auto simp: fun_eq_iff)

lemma set_mapSet: "set (mapSet k v m) \<subseteq> insert (k, v) (set m)"
  by (induction m) auto

lemma processTrade_lookup:
  "map_of (processTrade m t) (Trade.symbol t)
     = Some (updatePosition (positionOf m (Trade.symbol t)) t)"
  by (cases "map_of m (Trade.symbol t)")
     (simp_all add: processTrade_def mapHas_def positionOf_def Let_def map_of_mapSet map_add_def)

lemma processTrade_other:
  "key \<noteq> Trade.symbol t \<Longrightarrow> map_of (processTrade m t) key = map_of m key"
  by (cases "map_of m (Trade.symbol t)")
     (auto simp: processTrade_def mapHas_def Let_def map_of_mapSet map_add_def split: option.splits)

lemma positionOf_cases:
  "positionOf m key = newPosition key \<or> (key, positionOf m key) \<in> set m"
  by (cases "map_of m key") (auto simp: positionOf_def dest: map_of_SomeD)

lemma set_processTrade:
  "set (processTrade m t)
     \<subseteq> insert (Trade.symbol t, updatePosition (positionOf m (Trade.symbol t)) t)
         (insert (Trade.symbol t, newPosition (Trade.symbol t)) (set m))"
proof (cases "map_of m (Trade.symbol t)")
  case None
  then have "processTrade m t
      = mapSet (Trade.symbol t) (updatePosition (newPosition (Trade.symbol t)) t)
          (m @ [(Trade.symbol t, newPosition (Trade.symbol t))])"
    by (simp add: processTrade_def mapHas_def Let_def map_add_def)
  moreover have "positionOf m (Trade.symbol t) = newPosition (Trade.symbol t)"
    using None by (simp add: positionOf_def)
  ultimately show ?thesis using set_mapSet [of "Trade.symbol t" _ "m @ [(Trade.symbol t, newPosition (Trade.symbol t))]"]
    by auto
next
  case (Some p)
  then have "processTrade m t = mapSet (Trade.symbol t) (updatePosition p t) m"
    by (simp add: processTrade_def mapHas_def Let_def)
  moreover have "positionOf m (Trade.symbol t) = p" using Some by (simp add: positionOf_def)
  ultimately show ?thesis using set_mapSet [of "Trade.symbol t" _ m] by auto
qed

lemma processTrade_invariant:
  assumes new: "\<And>key. I (newPosition key)"
    and upd: "\<And>p. I p \<Longrightarrow> I (updatePosition p t)"
    and m: "\<forall>e\<in>set m. I (snd e)"
  shows "\<forall>e\<in>set (processTrade m t). I (snd e)"
proof
  fix e assume "e \<in> set (processTrade m t)"
  with set_processTrade [of m t]
  consider "e = (Trade.symbol t, updatePosition (positionOf m (Trade.symbol t)) t)"
    | "e = (Trade.symbol t, newPosition (Trade.symbol t))" | "e \<in> set m" by blast
  then show "I (snd e)"
  proof cases
    case 1
    have "I (positionOf m (Trade.symbol t))"
      using positionOf_cases [of m "Trade.symbol t"] new m by force
    then show ?thesis using 1 upd by simp
  next
    case 2
    then show ?thesis using new by simp
  next
    case 3
    then show ?thesis using m by simp
  qed
qed

lemma foldl_invariant:
  assumes new: "\<And>key. I (newPosition key)"
    and upd: "\<And>p t. t \<in> set ts \<Longrightarrow> I p \<Longrightarrow> I (updatePosition p t)"
    and m: "\<forall>e\<in>set m. I (snd e)"
  shows "\<forall>e\<in>set (foldl processTrade m ts). I (snd e)"
  using upd m
proof (induction ts arbitrary: m)
  case Nil
  then show ?case by simp
next
  case (Cons t ts)
  have "\<forall>e\<in>set (processTrade m t). I (snd e)"
    by (rule processTrade_invariant) (use new Cons.prems in auto)
  then show ?case using Cons.IH Cons.prems(1) by simp
qed

lemma accumulate_invariant:
  assumes new: "\<And>key. I (newPosition key)"
    and upd: "\<And>p t. t \<in> set ts \<Longrightarrow> I p \<Longrightarrow> I (updatePosition p t)"
  shows "\<forall>e\<in>set (accumulate (take k ts)). I (snd e)"
  unfolding accumulate_def
  by (rule foldl_invariant) (use new upd in \<open>auto dest: in_set_takeD\<close>)

lemma length_insertBy: "length (insertBy cmp x xs) = Suc (length xs)"
  by (induction xs) auto

lemma length_sortBy: "length (sortBy cmp xs) = length xs"
  by (induction xs) (simp_all add: sortBy_def length_insertBy)

lemma updatePosition_nonneg:
  "(side t = BUY \<longrightarrow> 0 \<le> Trade.quantity t) \<Longrightarrow> 0 \<le> quantity p \<Longrightarrow> 0 \<le> quantity (updatePosition p t)"
  by (auto simp: updatePosition_def Let_def)

lemma updatePosition_sell_quantity:
  "side t = SELL \<Longrightarrow>
     quantity (updatePosition p t) = quantity p - max 0 (min (Trade.quantity t) (quantity p))"
  by (auto simp: updatePosition_def Let_def)

subsection \<open>Rows of the normalizer\<close>


lemma js_positive: "\<not> isNaN p \<Longrightarrow> \<not> js_le p (Fin 0) \<Longrightarrow> js_lt (Fin 0) p"
  by (cases p) (auto simp: isNaN_def js_le_def js_eq_def)


lemma processRows_map_filter:
  "processRows rows i acc = acc @ List.map_filter (\<lambda>(j, row). processRow row j) (List.enumerate i rows)"
proof (induction rows arbitrary: i acc)
  case Nil
  then show ?case by (simp add: List.map_filter_simps)
next
  case (Cons row rows)
  show ?case
    by (cases "processRow row i") (simp_all add: Cons.IH List.map_filter_simps)
qed



subsection \<open>Rounding\<close>

lemma pow2_powr: "pow2 k = 2 powr (of_int k)"
proof (cases "0 \<le> k")
  case True
  then show ?thesis by (simp add: pow2_def powr_realpow [symmetric])
next
  case False
  then have "2 powr (of_int k) = 2 powr (- real (nat (- k)))" by simp
  also have "\<dots> = 1 / 2 ^ nat (- k)"
    by (simp only: powr_minus powr_realpow [OF zero_less_numeral] inverse_eq_divide)
  finally show ?thesis using False by (simp add: pow2_def)
qed

lemma pow2_pos: "0 < pow2 k"
  by (simp add: pow2_def)

lemma roundEven_ge_floor: "\<lfloor>x\<rfloor> \<le> roundEven x"
  by (simp add: roundEven_def Let_def)

lemma toDouble_eval:
  assumes "0 < x" "pow2 k \<le> x" "x < pow2 (k + 1)"
  shows "toDouble x = of_int (roundEven (x / pow2 (k - 52))) * pow2 (k - 52)"
proof -
  have "\<lfloor>log 2 x\<rfloor> = k"
    using assms by (simp add: floor_log_eq_powr_iff pow2_powr)
  with assms(1) show ?thesis by (simp add: toDouble_def Let_def)
qed

lemma toDouble_pos:
  assumes "0 < x"
  shows "0 < toDouble x"
proof -
  define k where "k = \<lfloor>log 2 x\<rfloor>"
  have "2 powr (of_int k) \<le> x"
    using assms floor_log_eq_powr_iff [of x 2 k] by (simp add: k_def)
  then have "pow2 k \<le> x" by (simp add: pow2_powr)
  moreover have "pow2 k = pow2 52 * pow2 (k - 52)"
  proof -
    have "pow2 52 * pow2 (k - 52) = 2 powr (of_int 52 + of_int (k - 52))"
      by (simp only: pow2_powr powr_add)
    also have "of_int 52 + of_int (k - 52) = (of_int k :: real)" by simp
    finally show ?thesis by (simp only: pow2_powr)
  qed
  ultimately have "pow2 52 \<le> x / pow2 (k - 52)"
    using pow2_pos [of "k - 52"] by (simp add: pos_le_divide_eq)
  moreover have "(1::real) \<le> pow2 52" by (simp add: pow2_def)
  ultimately have "1 \<le> x / pow2 (k - 52)" by linarith
  then have "1 \<le> \<lfloor>x / pow2 (k - 52)\<rfloor>" by linarith
  with roundEven_ge_floor [of "x / pow2 (k - 52)"]
  have "0 < roundEven (x / pow2 (k - 52))" by linarith
  then have "0 < real_of_int (roundEven (x / pow2 (k - 52))) * pow2 (k - 52)"
    using pow2_pos [of "k - 52"] by simp
  with assms show ?thesis by (simp add: toDouble_def k_def Let_def)
qed






subsection \<open>The loops over a given arithmetic\<close>

lemma matchBuysA_exact: "matchBuysA exact h bs s r ms = matchBuys h bs s r ms"
  by (induction bs arbitrary: h r ms) (simp_all add: exact_def matchBuys.simps Let_def)

lemma sellRunsA_exact: "sellRunsA exact h bs ss = sellRuns h bs ss"
  by (induction ss arbitrary: h) (simp_all add: matchBuysA_exact split: prod.splits)

lemma fifoRunsA_exact: "fifoRunsA exact lib h trades = fifoRuns lib h trades"
  by (simp add: fifoRunsA_def fifoRuns_def sellRunsA_exact)

lemma makePairA_exact:
  "ms \<noteq> [] \<Longrightarrow> makePairA exact lib h s ms = Inr (makePair lib h s (fst (hd ms)) ms)"
  by (cases ms)
     (simp_all add: makePairA_def makePair_def exact_def element_def Let_def
        totalBuyValue_def totalBuyQuantity_def)

lemma pairForA_exact: "pairForA exact lib h s r ms = Inr (pairFor lib h s r ms)"
  by (cases ms) (simp_all add: pairForA_def pairFor_def makePairA_exact)

lemma matchSellsA_exact:
  "matchSellsA exact lib h bs ss pairs = Inr (matchSells lib h bs ss pairs)"
  by (induction ss arbitrary: h pairs)
     (simp_all add: matchBuysA_exact pairForA_exact split: prod.splits)

lemma calculateFIFOPairsA_exact:
  "calculateFIFOPairsA exact lib h trades = Inr (calculateFIFOPairs lib h trades)"
  by (simp add: calculateFIFOPairsA_def calculateFIFOPairs_def matchSellsA_exact)

lemma orderly_exact: "orderly exact"
  by (simp add: orderly_def exact_def)














subsection \<open>Rounding error\<close>

lemma roundEven_error: "\<bar>real_of_int (roundEven y) - y\<bar> \<le> 1 / 2"
  unfolding roundEven_def Let_def by (auto; linarith)

lemma toDouble_error: "\<bar>toDouble x - x\<bar> \<le> \<bar>x\<bar> / 2 ^ 53"
proof (cases "x = 0")
  case True
  then show ?thesis by (simp add: toDouble_def)
next
  case False
  define k where "k = \<lfloor>log 2 \<bar>x\<bar>\<rfloor>"
  define e where "e = k - 52"
  define y where "y = \<bar>x\<bar> / pow2 e"
  have pe: "0 < pow2 e" by (rule pow2_pos)
  from False have ax: "0 < \<bar>x\<bar>" by simp
  have "2 powr (of_int k) \<le> \<bar>x\<bar>"
    using ax floor_log_eq_powr_iff [of "\<bar>x\<bar>" 2 k] by (simp add: k_def)
  then have kx: "pow2 k \<le> \<bar>x\<bar>" by (simp add: pow2_powr)
  have split: "pow2 k = pow2 52 * pow2 e"
  proof -
    have "pow2 52 * pow2 (k - 52) = 2 powr (of_int 52 + of_int (k - 52))"
      by (simp only: pow2_powr powr_add)
    also have "of_int 52 + of_int (k - 52) = (of_int k :: real)" by simp
    finally show ?thesis by (simp only: pow2_powr e_def)
  qed
  have p52: "pow2 52 = 2 ^ 52" by (simp add: pow2_def)
  from kx split p52 have ex: "pow2 e * 2 ^ 52 \<le> \<bar>x\<bar>" by (simp add: mult.commute)
  have xy: "\<bar>x\<bar> = y * pow2 e" using pe by (simp add: y_def)
  have td: "toDouble x = sgn x * real_of_int (roundEven y) * pow2 e"
    using False by (simp add: toDouble_def Let_def k_def e_def y_def)
  have "x = sgn x * \<bar>x\<bar>" by (simp add: sgn_mult_abs)
  then have x': "x = sgn x * y * pow2 e" using xy by (simp add: mult.assoc)
  have "toDouble x - x = sgn x * real_of_int (roundEven y) * pow2 e - sgn x * y * pow2 e"
    using td x' by linarith
  then have "toDouble x - x = sgn x * (real_of_int (roundEven y) - y) * pow2 e"
    by (simp add: algebra_simps)
  then have "\<bar>toDouble x - x\<bar> = \<bar>sgn x\<bar> * \<bar>real_of_int (roundEven y) - y\<bar> * pow2 e"
    using pe by (simp add: abs_mult)
  also have "\<bar>sgn x\<bar> = 1" using False by (simp add: abs_sgn_eq)
  finally have "\<bar>toDouble x - x\<bar> = \<bar>real_of_int (roundEven y) - y\<bar> * pow2 e" by simp
  also have "\<dots> \<le> 1 / 2 * pow2 e"
    using roundEven_error [of y] pe by (intro mult_right_mono) simp_all
  also have "\<dots> \<le> \<bar>x\<bar> / 2 ^ 53" using ex by simp
  finally show ?thesis .
qed

lemma toDouble_nonneg: "0 \<le> x \<Longrightarrow> 0 \<le> toDouble x"
  using toDouble_pos [of x] by (cases "x = 0") (simp_all add: toDouble_def)

lemma js_round_Fin: "js_round x = Fin a \<Longrightarrow> a = toDouble x"
  by (simp add: js_round_def Let_def split: if_splits)

lemma js_round_0: "js_round 0 = Fin 0"
  by (simp add: js_round_def toDouble_def)

lemma js_round_pos: "0 < x \<Longrightarrow> js_lt (Fin 0) (js_round x)"
  using toDouble_pos [of x] by (simp add: js_round_def Let_def)

lemma js_quot_Fin:
  "js_quot (Fin tc) (Fin q) = Fin a \<Longrightarrow> 0 < q \<Longrightarrow> a = toDouble (tc / q)"
  by (simp add: js_quot_def js_round_Fin)

lemma js_mul_Fin: "js_mul (Fin a) (Fin q) = Fin p \<Longrightarrow> p = toDouble (a * q)"
  by (simp add: js_round_Fin)

lemma js_sub_Fin: "js_sub (Fin x) y = Fin d \<Longrightarrow> \<exists>p. y = Fin p \<and> d = toDouble (x - p)"
  by (cases y) (simp_all add: js_sub_def js_round_Fin)

lemma quotient_residue:
  assumes "0 < q" "a = toDouble (tc / q)"
  shows "\<bar>tc - a * q\<bar> \<le> \<bar>tc\<bar> / 2 ^ 53"
proof -
  have "tc - a * q = (tc / q - a) * q" using assms(1) by (simp add: algebra_simps)
  then have "\<bar>tc - a * q\<bar> = \<bar>toDouble (tc / q) - tc / q\<bar> * q"
    using assms by (simp add: abs_mult abs_minus_commute)
  also have "\<dots> \<le> \<bar>tc / q\<bar> / 2 ^ 53 * q"
    using toDouble_error [of "tc / q"] assms(1) by (intro mult_right_mono) simp_all
  also have "\<dots> = \<bar>tc\<bar> / 2 ^ 53" using assms(1) by simp
  finally show ?thesis .
qed

lemma computed_residue:
  assumes r: "\<bar>tc - p\<bar> \<le> \<bar>tc\<bar> / 2 ^ 53"
  shows "\<bar>toDouble (tc - toDouble p)\<bar> \<le> \<bar>tc\<bar> / 2 ^ 51"
proof -
  let ?u = "1 / 2 ^ 53 :: real"
  have "\<bar>p\<bar> \<le> \<bar>tc\<bar> + \<bar>tc - p\<bar>" by arith
  with r have p: "\<bar>p\<bar> \<le> \<bar>tc\<bar> + \<bar>tc\<bar> * ?u" by simp
  have "\<bar>toDouble p - p\<bar> \<le> \<bar>p\<bar> * ?u" using toDouble_error [of p] by simp
  also have "\<dots> \<le> (\<bar>tc\<bar> + \<bar>tc\<bar> * ?u) * ?u" using p by (intro mult_right_mono) simp_all
  finally have e1: "\<bar>toDouble p - p\<bar> \<le> (\<bar>tc\<bar> + \<bar>tc\<bar> * ?u) * ?u" .
  have "\<bar>tc - toDouble p\<bar> \<le> \<bar>tc - p\<bar> + \<bar>toDouble p - p\<bar>" by simp
  with r e1 have d: "\<bar>tc - toDouble p\<bar> \<le> \<bar>tc\<bar> * ?u + (\<bar>tc\<bar> + \<bar>tc\<bar> * ?u) * ?u" by simp
  let ?D = "tc - toDouble p"
  have "\<bar>toDouble ?D\<bar> \<le> \<bar>?D\<bar> + \<bar>toDouble ?D - ?D\<bar>" by simp
  also have "\<dots> \<le> \<bar>?D\<bar> + \<bar>?D\<bar> * ?u" using toDouble_error [of ?D] by simp
  also have "\<dots> = \<bar>?D\<bar> * (1 + ?u)" by (simp add: algebra_simps)
  also have "\<dots> \<le> (\<bar>tc\<bar> * ?u + (\<bar>tc\<bar> + \<bar>tc\<bar> * ?u) * ?u) * (1 + ?u)"
    using d by (intro mult_right_mono) simp_all
  also have "\<dots> = \<bar>tc\<bar> * (?u * (2 + ?u) * (1 + ?u))" by (simp add: algebra_simps)
  also have "\<dots> \<le> \<bar>tc\<bar> * (1 / 2 ^ 51)"
    by (intro mult_left_mono) simp_all
  finally show ?thesis by simp
qed

subsection \<open>The position map over JavaScript numbers\<close>

lemma map_of_mapSetJ: "map_of (mapSetJ k v m) = (map_of m)(k \<mapsto> v)"
  by (induction m) (auto simp: fun_eq_iff)

lemma set_mapSetJ: "set (mapSetJ k v m) \<subseteq> insert (k, v) (set m)"
  by (induction m) auto

lemma positionOfJ_cases:
  "positionOfJ m key = newPositionJ key \<or> (key, positionOfJ m key) \<in> set m"
  by (cases "map_of m key") (auto simp: positionOfJ_def dest: map_of_SomeD)

lemma set_processTradeJ:
  "set (processTradeJ m t)
     \<subseteq> insert (Trade.symbol t, updatePositionJ (positionOfJ m (Trade.symbol t)) t)
         (insert (Trade.symbol t, newPositionJ (Trade.symbol t)) (set m))"
proof (cases "map_of m (Trade.symbol t)")
  case None
  then have "processTradeJ m t
      = mapSetJ (Trade.symbol t) (updatePositionJ (newPositionJ (Trade.symbol t)) t)
          (m @ [(Trade.symbol t, newPositionJ (Trade.symbol t))])"
    by (simp add: processTradeJ_def mapHasJ_def Let_def map_add_def)
  moreover have "positionOfJ m (Trade.symbol t) = newPositionJ (Trade.symbol t)"
    using None by (simp add: positionOfJ_def)
  ultimately show ?thesis
    using set_mapSetJ [of "Trade.symbol t" _ "m @ [(Trade.symbol t, newPositionJ (Trade.symbol t))]"]
    by auto
next
  case (Some p)
  then have "processTradeJ m t = mapSetJ (Trade.symbol t) (updatePositionJ p t) m"
    by (simp add: processTradeJ_def mapHasJ_def Let_def)
  moreover have "positionOfJ m (Trade.symbol t) = p" using Some by (simp add: positionOfJ_def)
  ultimately show ?thesis using set_mapSetJ [of "Trade.symbol t" _ m] by auto
qed

lemma processTradeJ_invariant:
  assumes new: "\<And>key. I (newPositionJ key)"
    and upd: "\<And>p. I p \<Longrightarrow> I (updatePositionJ p t)"
    and m: "\<forall>e\<in>set m. I (snd e)"
  shows "\<forall>e\<in>set (processTradeJ m t). I (snd e)"
proof
  fix e assume "e \<in> set (processTradeJ m t)"
  with set_processTradeJ [of m t]
  consider "e = (Trade.symbol t, updatePositionJ (positionOfJ m (Trade.symbol t)) t)"
    | "e = (Trade.symbol t, newPositionJ (Trade.symbol t))" | "e \<in> set m" by blast
  then show "I (snd e)"
  proof cases
    case 1
    have "I (positionOfJ m (Trade.symbol t))"
      using positionOfJ_cases [of m "Trade.symbol t"] new m by force
    then show ?thesis using 1 upd by simp
  next
    case 2
    then show ?thesis using new by simp
  next
    case 3
    then show ?thesis using m by simp
  qed
qed

lemma foldlJ_invariant:
  assumes new: "\<And>key. I (newPositionJ key)"
    and upd: "\<And>p t. t \<in> set ts \<Longrightarrow> I p \<Longrightarrow> I (updatePositionJ p t)"
    and m: "\<forall>e\<in>set m. I (snd e)"
  shows "\<forall>e\<in>set (foldl processTradeJ m ts). I (snd e)"
  using upd m
proof (induction ts arbitrary: m)
  case Nil
  then show ?case by simp
next
  case (Cons t ts)
  have "\<forall>e\<in>set (processTradeJ m t). I (snd e)"
    by (rule processTradeJ_invariant) (use new Cons.prems in auto)
  then show ?case using Cons.IH Cons.prems(1) by simp
qed

lemma accumulateJ_invariant:
  assumes new: "\<And>key. I (newPositionJ key)"
    and upd: "\<And>p t. t \<in> set ts \<Longrightarrow> I p \<Longrightarrow> I (updatePositionJ p t)"
  shows "\<forall>e\<in>set (accumulateJ (take k ts)). I (snd e)"
  unfolding accumulateJ_def
  by (rule foldlJ_invariant) (use new upd in \<open>auto dest: in_set_takeD\<close>)

lemma js_add_pos:
  "js_lt (Fin 0) y \<Longrightarrow> js_lt (Fin 0) x \<or> x = NaN \<or> x = Fin 0 \<Longrightarrow>
     js_lt (Fin 0) (js_add x y) \<or> js_add x y = NaN"
  by (cases x; cases y) (auto simp: js_round_pos)

lemma js_round_nonneg: "0 \<le> x \<Longrightarrow> js_lt (Fin 0) (js_round x) \<or> js_round x = Fin 0"
  using js_round_pos [of x] by (cases "x = 0") (simp_all add: js_round_0)

lemma js_sub_min:
  "js_lt (Fin 0) (js_min y x) \<Longrightarrow>
     js_lt (Fin 0) (js_sub x (js_min y x)) \<or> js_sub x (js_min y x) = NaN \<or>
     js_sub x (js_min y x) = Fin 0"
proof (cases x; cases y)
  fix a b
  assume x: "x = Fin a" and y: "y = Fin b" and "js_lt (Fin 0) (js_min y x)"
  show ?thesis
  proof (cases "a < b")
    case True
    with x y show ?thesis by (simp add: js_min_def js_sub_def isNaN_def js_round_0)
  next
    case False
    then have "0 \<le> a - b" by simp
    then have "js_lt (Fin 0) (js_round (a - b)) \<or> js_round (a - b) = Fin 0"
      by (rule js_round_nonneg)
    with False x y show ?thesis by (auto simp: js_min_def js_sub_def isNaN_def)
  qed
qed (auto simp: js_min_def js_sub_def isNaN_def js_round_0 split: if_splits)

lemma updatePositionJ_quotient:
  "(js_lt (Fin 0) (quantityJ p) \<longrightarrow> avgBuyPriceJ p = js_quot (totalCostJ p) (quantityJ p)) \<Longrightarrow>
   js_lt (Fin 0) (quantityJ (updatePositionJ p t)) \<longrightarrow>
     avgBuyPriceJ (updatePositionJ p t)
       = js_quot (totalCostJ (updatePositionJ p t)) (quantityJ (updatePositionJ p t))"
  by (auto simp: updatePositionJ_def Let_def)

lemma updatePositionJ_closed:
  assumes b: "side t = BUY \<longrightarrow> js_lt (Fin 0) (Trade.quantity t)"
    and k: "js_lt (Fin 0) (quantityJ p) \<or> quantityJ p = NaN \<or>
            (quantityJ p = Fin 0 \<and> totalCostJ p = Fin 0 \<and> avgBuyPriceJ p = Fin 0)"
  shows "js_lt (Fin 0) (quantityJ (updatePositionJ p t)) \<or> quantityJ (updatePositionJ p t) = NaN \<or>
         (quantityJ (updatePositionJ p t) = Fin 0 \<and> totalCostJ (updatePositionJ p t) = Fin 0 \<and>
          avgBuyPriceJ (updatePositionJ p t) = Fin 0)"
proof (cases "side t = BUY")
  case True
  with b have "js_lt (Fin 0) (Trade.quantity t)" by simp
  moreover from k have "js_lt (Fin 0) (quantityJ p) \<or> quantityJ p = NaN \<or> quantityJ p = Fin 0"
    by blast
  ultimately have "js_lt (Fin 0) (js_add (quantityJ p) (Trade.quantity t)) \<or>
      js_add (quantityJ p) (Trade.quantity t) = NaN"
    by (rule js_add_pos)
  with True show ?thesis by (auto simp: updatePositionJ_def Let_def)
next
  case False
  show ?thesis
  proof (cases "side t = SELL \<and> js_lt (Fin 0) (js_min (Trade.quantity t) (quantityJ p))")
    case True
    then have "js_lt (Fin 0) (js_sub (quantityJ p) (js_min (Trade.quantity t) (quantityJ p))) \<or>
        js_sub (quantityJ p) (js_min (Trade.quantity t) (quantityJ p)) = NaN \<or>
        js_sub (quantityJ p) (js_min (Trade.quantity t) (quantityJ p)) = Fin 0"
      by (intro js_sub_min) simp
    with True show ?thesis by (auto simp: updatePositionJ_def Let_def)
  next
    case False
    with \<open>side t \<noteq> BUY\<close> have "updatePositionJ p t = p"
      by (auto simp: updatePositionJ_def Let_def)
    with k show ?thesis by simp
  qed
qed

lemma residue_bound:
  assumes j: "js_lt (Fin 0) (quantityJ p) \<longrightarrow> avgBuyPriceJ p = js_quot (totalCostJ p) (quantityJ p)"
    and k: "js_lt (Fin 0) (quantityJ p) \<or> quantityJ p = NaN \<or>
            (quantityJ p = Fin 0 \<and> totalCostJ p = Fin 0 \<and> avgBuyPriceJ p = Fin 0)"
    and f: "totalCostJ p = Fin tc" "residue p = Fin d"
  shows "\<exists>q a. quantityJ p = Fin q \<and> avgBuyPriceJ p = Fin a \<and>
           \<bar>tc - a * q\<bar> \<le> \<bar>tc\<bar> / 2 ^ 53 \<and> d \<le> \<bar>tc\<bar> / 2 ^ 51"
proof -
  from f obtain s where s: "js_sub (Fin tc) (js_mul (avgBuyPriceJ p) (quantityJ p)) = Fin s"
    and ds: "d = \<bar>s\<bar>"
    by (cases "js_sub (Fin tc) (js_mul (avgBuyPriceJ p) (quantityJ p))") (auto simp: residue_def)
  from js_sub_Fin [OF s] obtain m where m: "js_mul (avgBuyPriceJ p) (quantityJ p) = Fin m"
    and sm: "s = toDouble (tc - m)" by blast
  from m obtain a q where a: "avgBuyPriceJ p = Fin a" and q: "quantityJ p = Fin q"
    by (cases "avgBuyPriceJ p"; cases "quantityJ p") (auto split: if_splits)
  from m a q have mm: "m = toDouble (a * q)" by (simp add: js_round_Fin)
  have ex: "\<bar>tc - a * q\<bar> \<le> \<bar>tc\<bar> / 2 ^ 53"
  proof (cases "0 < q")
    case True
    with j q a f(1) have "js_quot (Fin tc) (Fin q) = Fin a" by simp
    then have "a = toDouble (tc / q)" using True by (rule js_quot_Fin)
    with True show ?thesis by (rule quotient_residue)
  next
    case False
    with k q a f(1) have "tc = 0 \<and> a = 0" by auto
    then show ?thesis by simp
  qed
  then have "\<bar>toDouble (tc - toDouble (a * q))\<bar> \<le> \<bar>tc\<bar> / 2 ^ 51" by (rule computed_residue)
  with ds sm mm have "d \<le> \<bar>tc\<bar> / 2 ^ 51" by simp
  with a q ex show ?thesis by blast
qed

subsection \<open>Evaluation of the examples\<close>

lemma utcLib_fields:
  "localeCompare utcLib = compareStr"
  "getTime utcLib d = 86400000 * real_of_int d"
  "differenceInDays utcLib a b = real_of_int (a - b)"
  by (simp_all add: utcLib_def)

lemma example_dates:
  "parseDate utcLib ''7/24/2025'' = 20293"
  "parseDate utcLib ''7/25/2025'' = 20294"
  "parseDate utcLib ''7/26/2025'' = 20295"
  by (simp_all add: parseDate_def utcLib_def civil_def element_def digitsValue_def digitVal_def
      daysFromCivil_def)

lemmas fifo_eval =
  calculateFIFOPairs_def buyTrades_def sellTrades_def sortedTrades_def sortBy_def
  compareTrades_def pairFor_def makePair_def totalBuyValue_def totalBuyQuantity_def
  utcLib_fields example_dates
  trade_def store_def fifoOfCopies_def matchBuys.simps fifoRuns_def complete_def
  availableQuantity_def singleLot_def overSold_def sellFirst_def twoLots_def mixedLots_def

lemma ledger_sorted:
  "sortBy (compareTrades utcLib) ledger =
     [trade ''AAPL'' BUY 100 10 ''7/24/2025'',
      trade ''AAPL'' BUY 50 20 ''7/25/2025'',
      trade ''AAPL'' SELL 200 30 ''7/26/2025'',
      trade ''TSLA'' BUY 10 250 ''7/24/2025'',
      trade ''TSLA'' SELL 4 260 ''7/25/2025'']"
  by (simp add: ledger_def sortBy_def compareTrades_def utcLib_fields example_dates trade_def)

lemmas positions_eval =
  accumulate_def processTrade_def mapHas_def updatePosition_def newPosition_def positionOf_def
  calculatePositions_def trade_def Let_def


lemmas parse_eval =
  parseFloat_def parseUnsigned_def exponentPart_def isDigit_def isSpace_def digitsValue_def
  digitVal_def trim_def toUpperCase_def upperChar_def mapSide_def falsy_def rowQuantity_def
  rowAmount_def calculatedPrice_def processRow_def fieldText_def isNaN_def js_le_def js_eq_def
  digitChar_def decimal.simps parseCSVData_def Let_def


lemmas row_eval = parse_eval csvRow_def

lemma toDouble_0: "toDouble 0 = 0"
  by (simp add: toDouble_def)





lemmas toDouble_at =
  toDouble_eval [where k = 0] toDouble_eval [where k = 1] toDouble_eval [where k = 3]
  toDouble_eval [where k = 4] toDouble_eval [where k = 5] toDouble_eval [where k = "- 47"]
  toDouble_eval [where k = 600] toDouble_eval [where k = 1200]

lemmas positionsJ_eval =
  accumulateJ_def processTradeJ_def mapHasJ_def updatePositionJ_def newPositionJ_def
  calculatePositionsJ_def tradeJ_def residue_def js_round_def js_quot_def js_sub_def js_min_def
  isNaN_def toDouble_0 toDouble_at pow2_def roundEven_def Let_def

lemma drift_price: "js_round (1001 / 100) = Fin (5635129033747333 / 2 ^ 49)"
  by (simp add: js_round_def toDouble_at pow2_def roundEven_def Let_def)

lemma drift_sorted:
  "sortBy (compareTradesJ utcLib) drift =
     [tradeJ ''AAPL'' BUY (Fin 1) (Fin (5635129033747333 / 2 ^ 49)) ''7/24/2025'',
      tradeJ ''AAPL'' BUY (Fin 2) (Fin 20) ''7/25/2025'']"
  by (simp add: drift_def drift_price sortBy_def compareTradesJ_def utcLib_fields example_dates
      tradeJ_def)

lemma drift_positions:
  "accumulateJ (sortBy (compareTradesJ utcLib) drift) =
     [(''AAPL'', \<lparr> symbolJ = ''AAPL'', quantityJ = Fin 3,
                   avgBuyPriceJ = Fin (4692187861766635 / 2 ^ 48),
                   totalCostJ = Fin (7038281792649953 / 2 ^ 47),
                   currentPriceJ = Fin 0, marketValueJ = Fin 0,
                   unrealizedPnLJ = Fin 0, unrealizedPnLPercentJ = Fin 0 \<rparr>)]"
  by (simp add: drift_sorted positionsJ_eval)

section \<open>The claims\<close>

text \<open>
  Claim C1, as the code has it.  \<open>calculateFIFOPairs\<close> sorts a spread copy, so the caller's
  array keeps its elements and their order, but the copy holds the same objects: the
  function writes to the records of its argument.  What it writes is bounded: in the store
  after the call every record has all its fields as before except \<open>quantity\<close>, no quantity is
  larger than before, and a record that is not a BUY record of the argument is unchanged.
  The caller \<open>handleDataLoaded\<close> passes new copies of the parsed records, and that is what
  leaves every object that existed before the call (address below \<open>free\<close>) unchanged.
\<close>

theorem calculateFIFOPairs_writes_records:
  "(\<forall>a. fst (calculateFIFOPairs lib h trades) a
          = (h a)\<lparr>Trade.quantity := Trade.quantity (fst (calculateFIFOPairs lib h trades) a)\<rparr> \<and>
        Trade.quantity (fst (calculateFIFOPairs lib h trades) a) \<le> Trade.quantity (h a) \<and>
        (a \<notin> set trades \<or> side (h a) \<noteq> BUY \<longrightarrow> fst (calculateFIFOPairs lib h trades) a = h a)) \<and>
   (\<forall>a < free. fst (fifoOfCopies lib h free trades) a = h a)"
proof -
  obtain h' ps where f: "calculateFIFOPairs lib h trades = (h', ps)"
    by (cases "calculateFIFOPairs lib h trades") auto
  have "frame h h' {a \<in> set trades. side (h a) = BUY}"
    using f by (rule calculateFIFOPairs_frame')
  then have "\<forall>a. h' a = (h a)\<lparr>Trade.quantity := Trade.quantity (h' a)\<rparr> \<and>
        Trade.quantity (h' a) \<le> Trade.quantity (h a) \<and>
        (a \<notin> set trades \<or> side (h a) \<noteq> BUY \<longrightarrow> h' a = h a)"
    unfolding frame_def by blast
  then show ?thesis by (simp add: f fifoOfCopies_old)
qed

text \<open>
  An instance of the theorem: after BUY 100 and SELL 50 of one symbol the SELL record is
  as before, the BUY record has quantity 50, and with the caller's copies the BUY record
  the caller holds still has quantity 100.
\<close>

theorem calculateFIFOPairs_writes_records_witness:
  "fst (calculateFIFOPairs utcLib
          (store [trade ''AAPL'' BUY 100 150 ''7/24/2025'',
                  trade ''AAPL'' SELL 50 160 ''7/25/2025'']) [0, 1]) 1
     = store [trade ''AAPL'' BUY 100 150 ''7/24/2025'',
              trade ''AAPL'' SELL 50 160 ''7/25/2025''] 1 \<and>
   fst (calculateFIFOPairs utcLib
          (store [trade ''AAPL'' BUY 100 150 ''7/24/2025'',
                  trade ''AAPL'' SELL 50 160 ''7/25/2025'']) [0, 1]) 0
     = trade ''AAPL'' BUY 50 150 ''7/24/2025'' \<and>
   fst (fifoOfCopies utcLib
          (store [trade ''AAPL'' BUY 100 150 ''7/24/2025'',
                  trade ''AAPL'' SELL 50 160 ''7/25/2025'']) 2 [0, 1]) 0
     = trade ''AAPL'' BUY 100 150 ''7/24/2025''"
  using calculateFIFOPairs_writes_records [of utcLib
          "store [trade ''AAPL'' BUY 100 150 ''7/24/2025'',
                  trade ''AAPL'' SELL 50 160 ''7/25/2025'']" "[0, 1]" 2]
  by (simp add: fifo_eval)

text \<open>
  Claim C1 as stated fails: the BUY record of the argument has quantity 100 before the
  call and 50 after it.
\<close>

theorem calculateFIFOPairs_pure_counterexample:
  "Trade.quantity (store [trade ''AAPL'' BUY 100 150 ''7/24/2025'',
                          trade ''AAPL'' SELL 50 160 ''7/25/2025''] 0) = 100 \<and>
   Trade.quantity (fst (calculateFIFOPairs utcLib
                         (store [trade ''AAPL'' BUY 100 150 ''7/24/2025'',
                                 trade ''AAPL'' SELL 50 160 ''7/25/2025'']) [0, 1]) 0) = 50"
  by (simp add: fifo_eval)

text \<open>
  Claim C2, as the code has it.  For an array of distinct records, every SELL record is
  matched against BUY lots of its own symbol taken in the order of the sorted BUY array: the
  lots of its contributions are a subsequence of that array, and when a lot receives a
  contribution every lot of the symbol before it in the array is exhausted.  When the
  comparator is consistent on the records, that order is oldest first within a symbol.
  The lots are not restricted to those dated on or before the sell: see the counterexample.
\<close>

theorem lots_consumed_in_sorted_order:
  assumes "distinct trades"
  shows "(\<forall>r\<in>set (fifoRuns lib h trades).
            subseq (map fst (run_matched r)) (buyTrades lib h trades) \<and>
            (\<forall>m\<in>set (run_matched r).
               Trade.symbol (h (fst m)) = Trade.symbol (h (run_sell r)) \<and> 0 < snd m) \<and>
            (\<forall>i j. i < j \<and> j < length (buyTrades lib h trades) \<and>
                   buyTrades lib h trades ! j \<in> fst ` set (run_matched r) \<and>
                   Trade.symbol (h (buyTrades lib h trades ! i)) = Trade.symbol (h (run_sell r))
               \<longrightarrow> Trade.quantity (run_after r (buyTrades lib h trades ! i)) \<le> 0)) \<and>
         (consistentOn (\<lambda>a b. compareTrades lib (h a) (h b)) (set trades) \<longrightarrow>
            (\<forall>i j. i < j \<and> j < length (buyTrades lib h trades) \<and>
                   Trade.symbol (h (buyTrades lib h trades ! i))
                     = Trade.symbol (h (buyTrades lib h trades ! j))
               \<longrightarrow> getTime lib (parseDate lib (date (h (buyTrades lib h trades ! i))))
                     \<le> getTime lib (parseDate lib (date (h (buyTrades lib h trades ! j))))))"
proof (intro conjI ballI allI impI)
  fix r
  assume r: "r \<in> set (fifoRuns lib h trades)"
  let ?bs = "buyTrades lib h trades"
  note mb = fifoRuns_matchBuys [OF r]
  note mm = matchBuys_matched [OF mb]
  from mm show "subseq (map fst (run_matched r)) ?bs" by blast
  {
    fix m assume m: "m \<in> set (run_matched r)"
    with mm have "Trade.symbol (run_before r (fst m)) = Trade.symbol (run_before r (run_sell r))"
      and "0 < snd m" by blast+
    then show "Trade.symbol (h (fst m)) = Trade.symbol (h (run_sell r))" and "0 < snd m"
      by (simp_all add: fifoRuns_symbol [OF r])
  }
  {
    fix i j
    assume "i < j \<and> j < length ?bs \<and> ?bs ! j \<in> fst ` set (run_matched r) \<and>
              Trade.symbol (h (?bs ! i)) = Trade.symbol (h (run_sell r))"
    then have ij: "i < j" "j < length ?bs" and c: "?bs ! j \<in> fst ` set (run_matched r)"
      and sy: "Trade.symbol (h (?bs ! i)) = Trade.symbol (h (run_sell r))" by blast+
    from sy have "Trade.symbol (run_before r (?bs ! i)) = Trade.symbol (run_before r (run_sell r))"
      by (simp add: fifoRuns_symbol [OF r])
    with distinct_buyTrades [OF assms] mb ij c
    show "Trade.quantity (run_after r (?bs ! i)) \<le> 0" by (rule matchBuys_fifo)
  }
next
  fix i j
  let ?bs = "buyTrades lib h trades"
  assume "consistentOn (\<lambda>a b. compareTrades lib (h a) (h b)) (set trades)"
    and "i < j \<and> j < length ?bs \<and> Trade.symbol (h (?bs ! i)) = Trade.symbol (h (?bs ! j))"
  then show "getTime lib (parseDate lib (date (h (?bs ! i))))
                     \<le> getTime lib (parseDate lib (date (h (?bs ! j))))"
    using buyTrades_chronological by blast
qed


text \<open>
  The multi-lot example of the specification, passed in reverse order: BUY 100 and BUY 50
  on consecutive days, then SELL 120.  The sell takes 100 from the older lot, which is
  then empty, and 20 from the newer one.
\<close>

theorem lots_consumed_in_sorted_order_witness:
  "distinct [2, 1, 0 :: nat] \<and>
   consistentOn (\<lambda>a b. compareTrades utcLib (twoLots a) (twoLots b)) (set [2, 1, 0]) \<and>
   buyTrades utcLib twoLots [2, 1, 0] = [0, 1] \<and>
   (\<exists>r\<in>set (fifoRuns utcLib twoLots [2, 1, 0]).
      run_sell r = 2 \<and> run_matched r = [(0, 100), (1, 20)] \<and>
      Trade.quantity (run_after r 0) = 0 \<and> Trade.quantity (run_after r 1) = 30) \<and>
   getTime utcLib (parseDate utcLib (date (twoLots 0)))
     \<le> getTime utcLib (parseDate utcLib (date (twoLots 1)))"
proof -
  have d: "distinct [2, 1, 0 :: nat]" by simp
  have c: "consistentOn (\<lambda>a b. compareTrades utcLib (twoLots a) (twoLots b)) (set [2, 1, 0])"
    unfolding consistentOn_def
    by (simp only: list.set ball_simps) (simp add: fifo_eval)
  have e: "buyTrades utcLib twoLots [2, 1, 0] = [0, 1] \<and>
   (\<exists>r\<in>set (fifoRuns utcLib twoLots [2, 1, 0]).
      run_sell r = 2 \<and> run_matched r = [(0, 100), (1, 20)] \<and>
      Trade.quantity (run_after r 0) = 0 \<and> Trade.quantity (run_after r 1) = 30) \<and>
   getTime utcLib (parseDate utcLib (date (twoLots 0)))
     \<le> getTime utcLib (parseDate utcLib (date (twoLots 1)))"
    by (simp add: fifo_eval)
  from lots_consumed_in_sorted_order [OF d, of utcLib twoLots] c d e
  show ?thesis by blast
qed


text \<open>
  Claim C2 as stated fails: a SELL of 24 July is matched against the BUY of 25 July, and
  the pair has a holding period of -1 day.
\<close>

theorem sell_matched_with_later_buy_counterexample:
  "map run_matched (fifoRuns utcLib sellFirst [0, 1]) = [[(1, 50)]] \<and>
   getTime utcLib (parseDate utcLib (date (sellFirst 0)))
     < getTime utcLib (parseDate utcLib (date (sellFirst 1))) \<and>
   map sellTrade (snd (calculateFIFOPairs utcLib sellFirst [0, 1])) = [0] \<and>
   map holdingPeriod (snd (calculateFIFOPairs utcLib sellFirst [0, 1])) = [- 1]"
  by (simp add: fifo_eval)








text \<open>
  Claim C10.  The store a run starts from is the store the previous run ended with, whether
  or not that run produced a pair.  Every contribution of every run, dropped or not, is
  still missing from its lot when the function returns.  After a SELL that ends with a
  positive remainder, each later SELL of the same symbol is matched against nothing and is
  dropped too.
\<close>

theorem consumption_is_permanent:
  "(\<forall>i. Suc i < length (fifoRuns lib h trades) \<longrightarrow>
        run_before (fifoRuns lib h trades ! Suc i) = run_after (fifoRuns lib h trades ! i)) \<and>
   (\<forall>r\<in>set (fifoRuns lib h trades). \<forall>m\<in>set (run_matched r).
        0 < snd m \<and>
        Trade.quantity (fst (calculateFIFOPairs lib h trades) (fst m))
          \<le> Trade.quantity (h (fst m)) - snd m) \<and>
   (\<forall>i j. i < j \<and> j < length (fifoRuns lib h trades) \<and>
          run_remaining (fifoRuns lib h trades ! i) > 0 \<and>
          Trade.symbol (h (run_sell (fifoRuns lib h trades ! j)))
            = Trade.symbol (h (run_sell (fifoRuns lib h trades ! i)))
      \<longrightarrow> run_matched (fifoRuns lib h trades ! j) = [] \<and> \<not> complete (fifoRuns lib h trades ! j))"
proof (intro conjI allI ballI impI)
  fix i
  assume "Suc i < length (fifoRuns lib h trades)"
  then show "run_before (fifoRuns lib h trades ! Suc i) = run_after (fifoRuns lib h trades ! i)"
    unfolding fifoRuns_def by (rule sellRuns_chain)
next
  fix r m
  assume r: "r \<in> set (fifoRuns lib h trades)" and m: "m \<in> set (run_matched r)"
  let ?bs = "buyTrades lib h trades"
  from matchBuys_matched [OF fifoRuns_matchBuys [OF r]] m
  have a: "snd m > 0" "Trade.quantity (run_after r (fst m)) \<le> Trade.quantity (run_before r (fst m)) - snd m"
    by blast+
  from a(1) show "0 < snd m" .
  have "Trade.quantity (run_before r (fst m)) \<le> Trade.quantity (h (fst m))"
    using fifoRuns_frame(1) [OF r] by (rule frame_quantity)
  moreover have "Trade.quantity (fst (calculateFIFOPairs lib h trades) (fst m))
      \<le> Trade.quantity (run_after r (fst m))"
    using fifoRuns_frame(4) [OF r] by (rule frame_quantity)
  ultimately show "Trade.quantity (fst (calculateFIFOPairs lib h trades) (fst m))
          \<le> Trade.quantity (h (fst m)) - snd m"
    using a(2) by linarith
next
  fix i j
  let ?rs = "fifoRuns lib h trades"
  let ?bs = "buyTrades lib h trades"
  assume "i < j \<and> j < length ?rs \<and> run_remaining (?rs ! i) > 0 \<and>
          Trade.symbol (h (run_sell (?rs ! j))) = Trade.symbol (h (run_sell (?rs ! i)))"
  then have ij: "i < j" "j < length ?rs" and pos: "run_remaining (?rs ! i) > 0"
    and sy: "Trade.symbol (h (run_sell (?rs ! j))) = Trade.symbol (h (run_sell (?rs ! i)))"
    by blast+
  from ij have ri: "?rs ! i \<in> set ?rs" and rj: "?rs ! j \<in> set ?rs" by simp_all
  have ex: "\<forall>b\<in>set ?bs. Trade.symbol (run_before (?rs ! i) b)
                = Trade.symbol (run_before (?rs ! i) (run_sell (?rs ! i)))
              \<longrightarrow> Trade.quantity (run_after (?rs ! i) b) \<le> 0"
    using fifoRuns_matchBuys [OF ri] pos by (rule matchBuys_exhausts)
  have bt: "frame (run_after (?rs ! i)) (run_before (?rs ! j)) (set ?bs)"
    using ij unfolding fifoRuns_def by (rule sellRuns_between)
  have "\<forall>b\<in>set ?bs. Trade.symbol (run_before (?rs ! j) b)
                = Trade.symbol (run_before (?rs ! j) (run_sell (?rs ! j)))
              \<longrightarrow> Trade.quantity (run_before (?rs ! j) b) \<le> 0"
  proof (intro ballI impI)
    fix b
    assume b: "b \<in> set ?bs"
      and "Trade.symbol (run_before (?rs ! j) b) = Trade.symbol (run_before (?rs ! j) (run_sell (?rs ! j)))"
    then have "Trade.symbol (h b) = Trade.symbol (h (run_sell (?rs ! i)))"
      by (simp add: fifoRuns_symbol [OF rj] sy)
    then have "Trade.symbol (run_before (?rs ! i) b)
                = Trade.symbol (run_before (?rs ! i) (run_sell (?rs ! i)))"
      by (simp add: fifoRuns_symbol [OF ri])
    with ex b have "Trade.quantity (run_after (?rs ! i) b) \<le> 0" by blast
    moreover have "Trade.quantity (run_before (?rs ! j) b) \<le> Trade.quantity (run_after (?rs ! i) b)"
      using bt by (rule frame_quantity)
    ultimately show "Trade.quantity (run_before (?rs ! j) b) \<le> 0" by linarith
  qed
  then have "matchBuys (run_before (?rs ! j)) ?bs (run_sell (?rs ! j))
               (Trade.quantity (h (run_sell (?rs ! j)))) []
             = (run_before (?rs ! j), Trade.quantity (h (run_sell (?rs ! j))), [])"
    by (rule matchBuys_none)
  with fifoRuns_matchBuys [OF rj] show "run_matched (?rs ! j) = []" by simp
  then show "\<not> complete (?rs ! j)" by (simp add: complete_def)
qed


text \<open>
  BUY 100, SELL 150, SELL 50: the first sell takes the 100 and is dropped with 50 left;
  the second sell starts from a lot of quantity 0, matches nothing, and no pair is
  returned although the lot could have covered it.
\<close>

theorem consumption_is_permanent_witness:
  "run_remaining (fifoRuns utcLib overSold [0, 1, 2] ! 0) = 50 \<and>
   run_matched (fifoRuns utcLib overSold [0, 1, 2] ! 0) = [(0, 100)] \<and>
   Trade.quantity (overSold 0) = 100 \<and>
   Trade.quantity (run_before (fifoRuns utcLib overSold [0, 1, 2] ! 1) 0) = 0 \<and>
   Trade.quantity (fst (calculateFIFOPairs utcLib overSold [0, 1, 2]) 0) = 0 \<and>
   Trade.quantity (overSold (run_sell (fifoRuns utcLib overSold [0, 1, 2] ! 1))) = 50 \<and>
   run_matched (fifoRuns utcLib overSold [0, 1, 2] ! 1) = [] \<and>
   snd (calculateFIFOPairs utcLib overSold [0, 1, 2]) = []"
  using consumption_is_permanent [of utcLib overSold "[0, 1, 2]"]
  by (simp add: fifo_eval)

text \<open>
  Claim C6.  A SELL record takes \<open>min(record.quantity, position.quantity)\<close> from the position
  of its symbol when that is positive and nothing otherwise, so the new quantity is the old
  one less \<open>max 0 (min \<dots>)\<close>, and a quantity that was not negative is not negative after it;
  no error is raised.  With the quantity of no BUY record negative (the data model has every
  quantity positive), no position has a negative quantity after any number of records, and
  every position returned has a positive quantity.
\<close>

theorem oversell_is_clamped:
  assumes "p = positionOf m (Trade.symbol t)"
  shows "(side t = SELL \<longrightarrow>
            (\<exists>p'. map_of (processTrade m t) (Trade.symbol t) = Some p' \<and>
                  quantity p' = quantity p - max 0 (min (Trade.quantity t) (quantity p)) \<and>
                  (0 \<le> quantity p \<longrightarrow> 0 \<le> quantity p'))) \<and>
         ((\<forall>u\<in>set trades. side u = BUY \<longrightarrow> 0 \<le> Trade.quantity u) \<longrightarrow>
            (\<forall>k\<le>length trades.
               \<forall>e\<in>set (accumulate (take k (sortBy (compareTrades lib) trades))).
                 0 \<le> quantity (snd e))) \<and>
         (\<forall>pos\<in>set (calculatePositions lib trades). 0 < quantity pos)"
proof (intro conjI impI)
  assume s: "side t = SELL"
  have "quantity (updatePosition p t) = quantity p - max 0 (min (Trade.quantity t) (quantity p))"
    using s by (rule updatePosition_sell_quantity)
  moreover have "0 \<le> quantity p \<longrightarrow> 0 \<le> quantity (updatePosition p t)"
    using s by (simp add: updatePosition_nonneg)
  ultimately show "\<exists>p'. map_of (processTrade m t) (Trade.symbol t) = Some p' \<and>
               quantity p' = quantity p - max 0 (min (Trade.quantity t) (quantity p)) \<and>
               (0 \<le> quantity p \<longrightarrow> 0 \<le> quantity p')"
    by (simp add: processTrade_lookup assms)
next
  assume b: "\<forall>u\<in>set trades. side u = BUY \<longrightarrow> 0 \<le> Trade.quantity u"
  show "\<forall>k\<le>length trades.
            \<forall>e\<in>set (accumulate (take k (sortBy (compareTrades lib) trades))). 0 \<le> quantity (snd e)"
  proof (intro allI impI)
    fix k
    show "\<forall>e\<in>set (accumulate (take k (sortBy (compareTrades lib) trades))). 0 \<le> quantity (snd e)"
    proof (rule accumulate_invariant)
      show "0 \<le> quantity (newPosition key)" for key by (simp add: newPosition_def)
      show "0 \<le> quantity (updatePosition q u)"
        if "u \<in> set (sortBy (compareTrades lib) trades)" "0 \<le> quantity q" for q u
        using that b by (intro updatePosition_nonneg) (simp_all add: set_sortBy)
    qed
  qed
next
  show "\<forall>pos\<in>set (calculatePositions lib trades). 0 < quantity pos"
    by (simp add: calculatePositions_def)
qed

text \<open>
  AAPL: BUY 100 and BUY 50 give a position of 150; SELL 200 takes the 150 and leaves 0.
\<close>

theorem oversell_is_clamped_witness:
  "quantity (positionOf (accumulate (take 2 (sortBy (compareTrades utcLib) ledger))) ''AAPL'') = 150 \<and>
   (\<exists>p'. map_of (processTrade (accumulate (take 2 (sortBy (compareTrades utcLib) ledger)))
                    (trade ''AAPL'' SELL 200 30 ''7/26/2025'')) ''AAPL'' = Some p' \<and>
         quantity p' = 0) \<and>
   map quantity (map snd (accumulate (take 3 (sortBy (compareTrades utcLib) ledger)))) = [0] \<and>
   map quantity (calculatePositions utcLib ledger) = [6]"
proof -
  let ?m = "accumulate (take 2 (sortBy (compareTrades utcLib) ledger))"
  let ?t = "trade ''AAPL'' SELL 200 30 ''7/26/2025''"
  have p: "positionOf ?m ''AAPL'' = positionOf ?m (Trade.symbol ?t)" by (simp add: trade_def)
  have h: "\<forall>u\<in>set ledger. side u = BUY \<longrightarrow> 0 \<le> Trade.quantity u"
    by (simp add: ledger_def trade_def)
  from oversell_is_clamped [OF p, of ledger utcLib] h
  show ?thesis by (simp add: ledger_sorted positions_eval)
qed


text \<open>
  Claim C7, as the code has it, on JavaScript numbers.  Every position returned has a
  positive quantity, the positions returned are exactly those of the final map with a
  positive quantity, and the \<open>avgBuyPrice\<close> of each is the quotient of its stored \<open>totalCost\<close>
  and \<open>quantity\<close> as doubles divide.  Hence, when \<open>totalCost\<close>, \<open>avgBuyPrice\<close> and the computed
  \<open>abs(totalCost - avgBuyPrice * quantity)\<close> are finite, the real difference of \<open>totalCost\<close> and
  \<open>avgBuyPrice * quantity\<close> is at most \<open>abs(totalCost) / 2 ^ 53\<close> and the computed expression is
  at most \<open>abs(totalCost) / 2 ^ 51\<close>: a tolerance relative to \<open>totalCost\<close>.  With every BUY
  quantity positive (the data model has every quantity positive) the same bounds hold for
  every position of the map after every record.  The bounds are stated away from the
  subnormal range, which the rounding here does not model: \<open>totalCost\<close> is 0, or it and
  \<open>avgBuyPrice\<close> are at least \<open>2 ^ -1021\<close> in magnitude.
\<close>

theorem cost_basis_invariant:
  "(\<forall>pos\<in>set (calculatePositionsJ lib trades).
      js_lt (Fin 0) (quantityJ pos) \<and>
      avgBuyPriceJ pos = js_quot (totalCostJ pos) (quantityJ pos) \<and>
      (\<forall>tc a d. totalCostJ pos = Fin tc \<and> avgBuyPriceJ pos = Fin a \<and> residue pos = Fin d \<and>
                (tc = 0 \<or> 1 / 2 ^ 1021 \<le> \<bar>tc\<bar> \<and> 1 / 2 ^ 1021 \<le> \<bar>a\<bar>) \<longrightarrow>
         (\<exists>q. quantityJ pos = Fin q \<and>
               \<bar>tc - a * q\<bar> \<le> \<bar>tc\<bar> / 2 ^ 53 \<and> d \<le> \<bar>tc\<bar> / 2 ^ 51))) \<and>
   set (calculatePositionsJ lib trades)
     = {pos \<in> snd ` set (accumulateJ (sortBy (compareTradesJ lib) trades)).
          js_lt (Fin 0) (quantityJ pos)} \<and>
   ((\<forall>t\<in>set trades. side t = BUY \<longrightarrow> js_lt (Fin 0) (Trade.quantity t)) \<longrightarrow>
      (\<forall>k\<le>length trades.
         \<forall>e\<in>set (accumulateJ (take k (sortBy (compareTradesJ lib) trades))).
           \<forall>tc a d. totalCostJ (snd e) = Fin tc \<and> avgBuyPriceJ (snd e) = Fin a \<and>
                    residue (snd e) = Fin d \<and>
                    (tc = 0 \<or> 1 / 2 ^ 1021 \<le> \<bar>tc\<bar> \<and> 1 / 2 ^ 1021 \<le> \<bar>a\<bar>) \<longrightarrow>
             (\<exists>q. quantityJ (snd e) = Fin q \<and>
                   \<bar>tc - a * q\<bar> \<le> \<bar>tc\<bar> / 2 ^ 53 \<and> d \<le> \<bar>tc\<bar> / 2 ^ 51)))"
proof (intro conjI impI)
  let ?J = "\<lambda>p. js_lt (Fin 0) (quantityJ p) \<longrightarrow> avgBuyPriceJ p = js_quot (totalCostJ p) (quantityJ p)"
  let ?K = "\<lambda>p. js_lt (Fin 0) (quantityJ p) \<or> quantityJ p = NaN \<or>
            (quantityJ p = Fin 0 \<and> totalCostJ p = Fin 0 \<and> avgBuyPriceJ p = Fin 0)"
  let ?B = "\<lambda>p. \<forall>tc a d. totalCostJ p = Fin tc \<and> avgBuyPriceJ p = Fin a \<and> residue p = Fin d \<and>
                (tc = 0 \<or> 1 / 2 ^ 1021 \<le> \<bar>tc\<bar> \<and> 1 / 2 ^ 1021 \<le> \<bar>a\<bar>) \<longrightarrow>
         (\<exists>q. quantityJ p = Fin q \<and>
               \<bar>tc - a * q\<bar> \<le> \<bar>tc\<bar> / 2 ^ 53 \<and> d \<le> \<bar>tc\<bar> / 2 ^ 51)"
  have bound: "?B p" if j: "?J p" and k: "?K p" for p
  proof (intro allI impI)
    fix tc a d
    assume f: "totalCostJ p = Fin tc \<and> avgBuyPriceJ p = Fin a \<and> residue p = Fin d \<and>
                (tc = 0 \<or> 1 / 2 ^ 1021 \<le> \<bar>tc\<bar> \<and> 1 / 2 ^ 1021 \<le> \<bar>a\<bar>)"
    then have f1: "totalCostJ p = Fin tc" and f2: "residue p = Fin d" by simp_all
    from residue_bound [OF j k f1 f2] f
    show "\<exists>q. quantityJ p = Fin q \<and> \<bar>tc - a * q\<bar> \<le> \<bar>tc\<bar> / 2 ^ 53 \<and> d \<le> \<bar>tc\<bar> / 2 ^ 51"
      by auto
  qed
  have J: "\<forall>e\<in>set (accumulateJ (take k (sortBy (compareTradesJ lib) trades))). ?J (snd e)" for k
  proof (rule accumulateJ_invariant)
    show "?J (newPositionJ key)" for key by (simp add: newPositionJ_def)
    show "?J (updatePositionJ q u)" if "?J q" for q u
      using that by (rule updatePositionJ_quotient)
  qed
  from J [of "length trades"]
  have Jall: "\<forall>e\<in>set (accumulateJ (sortBy (compareTradesJ lib) trades)). ?J (snd e)"
    by (simp add: length_sortBy)
  show "\<forall>pos\<in>set (calculatePositionsJ lib trades).
      js_lt (Fin 0) (quantityJ pos) \<and>
      avgBuyPriceJ pos = js_quot (totalCostJ pos) (quantityJ pos) \<and> ?B pos"
  proof
    fix pos assume "pos \<in> set (calculatePositionsJ lib trades)"
    then have q: "js_lt (Fin 0) (quantityJ pos)"
      and "pos \<in> snd ` set (accumulateJ (sortBy (compareTradesJ lib) trades))"
      by (auto simp: calculatePositionsJ_def)
    with Jall have j: "?J pos" by auto
    from q have k: "?K pos" by simp
    from j k have "?B pos" by (rule bound)
    with q j show "js_lt (Fin 0) (quantityJ pos) \<and>
      avgBuyPriceJ pos = js_quot (totalCostJ pos) (quantityJ pos) \<and> ?B pos" by blast
  qed
  show "set (calculatePositionsJ lib trades)
     = {pos \<in> snd ` set (accumulateJ (sortBy (compareTradesJ lib) trades)).
          js_lt (Fin 0) (quantityJ pos)}"
    by (auto simp: calculatePositionsJ_def)
  assume b: "\<forall>t\<in>set trades. side t = BUY \<longrightarrow> js_lt (Fin 0) (Trade.quantity t)"
  have K: "\<forall>e\<in>set (accumulateJ (take k (sortBy (compareTradesJ lib) trades))). ?K (snd e)" for k
  proof (rule accumulateJ_invariant)
    show "?K (newPositionJ key)" for key by (simp add: newPositionJ_def)
    show "?K (updatePositionJ q u)"
      if "u \<in> set (sortBy (compareTradesJ lib) trades)" "?K q" for q u
    proof (rule updatePositionJ_closed)
      from that(1) b show "side u = BUY \<longrightarrow> js_lt (Fin 0) (Trade.quantity u)"
        by (simp add: set_sortBy)
      from that(2) show "?K q" .
    qed
  qed
  show "\<forall>k\<le>length trades.
         \<forall>e\<in>set (accumulateJ (take k (sortBy (compareTradesJ lib) trades))). ?B (snd e)"
  proof (intro allI impI)
    fix k
    show "\<forall>e\<in>set (accumulateJ (take k (sortBy (compareTradesJ lib) trades))). ?B (snd e)"
    proof
      fix e
      assume e: "e \<in> set (accumulateJ (take k (sortBy (compareTradesJ lib) trades)))"
      from J e have j: "?J (snd e)" by blast
      from K e have k: "?K (snd e)" by blast
      from j k show "?B (snd e)" by (rule bound)
    qed
  qed
qed

text \<open>
  BUY 1 at 10.01, then BUY 2 at 20.  \<open>totalCost\<close> is the double 50.01 and \<open>avgBuyPrice\<close> its
  double quotient by 3; the real difference is \<open>2 ^ -48\<close> and the computed expression is
  \<open>2 ^ -47\<close>, about 7.1e-15: not 0, and within the tolerance.  After the first record alone
  the difference is 0.
\<close>

theorem cost_basis_invariant_witness:
  "map (\<lambda>p. (quantityJ p, totalCostJ p, avgBuyPriceJ p, residue p)) (calculatePositionsJ utcLib drift)
     = [(Fin 3, Fin (7038281792649953 / 2 ^ 47), Fin (4692187861766635 / 2 ^ 48), Fin (1 / 2 ^ 47))] \<and>
   js_quot (Fin (7038281792649953 / 2 ^ 47)) (Fin 3) = Fin (4692187861766635 / 2 ^ 48) \<and>
   \<bar>7038281792649953 / 2 ^ 47 - 4692187861766635 / 2 ^ 48 * 3\<bar> = (1 / 2 ^ 48 :: real) \<and>
   \<bar>7038281792649953 / 2 ^ 47 - 4692187861766635 / 2 ^ 48 * 3\<bar>
     \<le> (\<bar>7038281792649953 / 2 ^ 47\<bar> / 2 ^ 53 :: real) \<and>
   (1 / 2 ^ 47 :: real) \<le> \<bar>7038281792649953 / 2 ^ 47\<bar> / 2 ^ 51 \<and>
   map (\<lambda>e. (quantityJ (snd e), totalCostJ (snd e), avgBuyPriceJ (snd e), residue (snd e)))
       (accumulateJ (take 1 (sortBy (compareTradesJ utcLib) drift)))
     = [(Fin 1, Fin (5635129033747333 / 2 ^ 49), Fin (5635129033747333 / 2 ^ 49), Fin 0)] \<and>
   \<bar>5635129033747333 / 2 ^ 49 - 5635129033747333 / 2 ^ 49 * 1\<bar>
     \<le> (\<bar>5635129033747333 / 2 ^ 49\<bar> / 2 ^ 53 :: real)"
proof -
  let ?P = "\<lparr> symbolJ = ''AAPL'', quantityJ = Fin 3,
                   avgBuyPriceJ = Fin (4692187861766635 / 2 ^ 48),
                   totalCostJ = Fin (7038281792649953 / 2 ^ 47),
                   currentPriceJ = Fin 0, marketValueJ = Fin 0,
                   unrealizedPnLJ = Fin 0, unrealizedPnLPercentJ = Fin 0 \<rparr>"
  let ?Q = "\<lparr> symbolJ = ''AAPL'', quantityJ = Fin 1,
                   avgBuyPriceJ = Fin (5635129033747333 / 2 ^ 49),
                   totalCostJ = Fin (5635129033747333 / 2 ^ 49),
                   currentPriceJ = Fin 0, marketValueJ = Fin 0,
                   unrealizedPnLJ = Fin 0, unrealizedPnLPercentJ = Fin 0 \<rparr>"
  have ps: "calculatePositionsJ utcLib drift = [?P]"
    by (simp add: calculatePositionsJ_def drift_positions)
  have r: "residue ?P = Fin (1 / 2 ^ 47)"
    by (simp add: positionsJ_eval)
  have g: "(7038281792649953 / 2 ^ 47 :: real) = 0 \<or>
           1 / 2 ^ 1021 \<le> \<bar>7038281792649953 / 2 ^ 47 :: real\<bar> \<and>
           1 / 2 ^ 1021 \<le> \<bar>4692187861766635 / 2 ^ 48 :: real\<bar>"
    by simp
  have mem: "?P \<in> set (calculatePositionsJ utcLib drift)" by (simp only: ps list.set insertI1)
  note inv = cost_basis_invariant [of utcLib drift]
  note inst = inv [THEN conjunct1, THEN bspec, OF mem, THEN conjunct2]
  from inst
  have q: "js_quot (Fin (7038281792649953 / 2 ^ 47)) (Fin 3) = Fin (4692187861766635 / 2 ^ 48)"
    by simp
  from inst r g
  have "\<exists>q. quantityJ ?P = Fin q \<and>
          \<bar>7038281792649953 / 2 ^ 47 - 4692187861766635 / 2 ^ 48 * q\<bar>
            \<le> \<bar>7038281792649953 / 2 ^ 47\<bar> / 2 ^ 53 \<and>
          (1 / 2 ^ 47 :: real) \<le> \<bar>7038281792649953 / 2 ^ 47\<bar> / 2 ^ 51"
    by (elim conjE allE [where x = "7038281792649953 / 2 ^ 47"]
          allE [where x = "4692187861766635 / 2 ^ 48"] allE [where x = "1 / 2 ^ 47"]) simp
  then have b: "\<bar>7038281792649953 / 2 ^ 47 - 4692187861766635 / 2 ^ 48 * 3\<bar>
            \<le> (\<bar>7038281792649953 / 2 ^ 47\<bar> / 2 ^ 53 :: real) \<and>
          (1 / 2 ^ 47 :: real) \<le> \<bar>7038281792649953 / 2 ^ 47\<bar> / 2 ^ 51"
    by auto
  have v: "\<bar>7038281792649953 / 2 ^ 47 - 4692187861766635 / 2 ^ 48 * 3\<bar> = (1 / 2 ^ 48 :: real)"
    by simp
  have m: "map (\<lambda>p. (quantityJ p, totalCostJ p, avgBuyPriceJ p, residue p)) (calculatePositionsJ utcLib drift)
     = [(Fin 3, Fin (7038281792649953 / 2 ^ 47), Fin (4692187861766635 / 2 ^ 48), Fin (1 / 2 ^ 47))]"
    using r by (simp add: ps)
  have h: "\<forall>t\<in>set drift. side t = BUY \<longrightarrow> js_lt (Fin 0) (Trade.quantity t)"
    by (simp add: drift_def tradeJ_def)
  have one: "accumulateJ (take 1 (sortBy (compareTradesJ utcLib) drift)) = [(''AAPL'', ?Q)]"
    by (simp add: drift_sorted positionsJ_eval)
  have rq: "residue ?Q = Fin 0"
    by (simp add: positionsJ_eval)
  have gq: "(5635129033747333 / 2 ^ 49 :: real) = 0 \<or>
           1 / 2 ^ 1021 \<le> \<bar>5635129033747333 / 2 ^ 49 :: real\<bar> \<and>
           1 / 2 ^ 1021 \<le> \<bar>5635129033747333 / 2 ^ 49 :: real\<bar>"
    by simp
  have k: "(1::nat) \<le> length drift" by (simp add: drift_def)
  have e: "(''AAPL'', ?Q) \<in> set (accumulateJ (take 1 (sortBy (compareTradesJ utcLib) drift)))"
    by (simp only: one list.set insertI1)
  note obs0 = inv [THEN conjunct2, THEN conjunct2, THEN mp, OF h, THEN spec, THEN mp, OF k,
      THEN bspec, OF e]
  have obs: "\<forall>tc a d. totalCostJ ?Q = Fin tc \<and> avgBuyPriceJ ?Q = Fin a \<and> residue ?Q = Fin d \<and>
                (tc = 0 \<or> 1 / 2 ^ 1021 \<le> \<bar>tc\<bar> \<and> 1 / 2 ^ 1021 \<le> \<bar>a\<bar>) \<longrightarrow>
         (\<exists>q. quantityJ ?Q = Fin q \<and>
               \<bar>tc - a * q\<bar> \<le> \<bar>tc\<bar> / 2 ^ 53 \<and> d \<le> \<bar>tc\<bar> / 2 ^ 51)"
    using obs0 by (simp only: snd_conv)
  from obs rq gq
  have "\<exists>q. quantityJ ?Q = Fin q \<and>
          \<bar>5635129033747333 / 2 ^ 49 - 5635129033747333 / 2 ^ 49 * q\<bar>
            \<le> \<bar>5635129033747333 / 2 ^ 49\<bar> / 2 ^ 53"
    by (elim allE [where x = "5635129033747333 / 2 ^ 49"] allE [where x = 0]) simp
  then have bq: "\<bar>5635129033747333 / 2 ^ 49 - 5635129033747333 / 2 ^ 49 * 1\<bar>
     \<le> (\<bar>5635129033747333 / 2 ^ 49\<bar> / 2 ^ 53 :: real)"
    by auto
  have mq: "map (\<lambda>e. (quantityJ (snd e), totalCostJ (snd e), avgBuyPriceJ (snd e), residue (snd e)))
       (accumulateJ (take 1 (sortBy (compareTradesJ utcLib) drift)))
     = [(Fin 1, Fin (5635129033747333 / 2 ^ 49), Fin (5635129033747333 / 2 ^ 49), Fin 0)]"
    unfolding one using rq by simp
  from m q v b mq bq show ?thesis by blast
qed

text \<open>
  Claim C7 as stated fails.  For a BUY record of \<open>2 ^ 600\<close> shares at \<open>2 ^ 600\<close> the product is
  beyond the largest double: \<open>totalCost\<close> and \<open>avgBuyPrice\<close> are \<open>+Infinity\<close> and the computed
  expression is \<open>NaN\<close>, which is below no \<open>\<epsilon>\<close>.  The same happens with the record of price
  \<open>+Infinity\<close> that \<open>parseCSVData\<close> returns for an Amount \<open>Infinity\<close>.
\<close>

theorem nonfinite_cost_counterexample:
  "map (\<lambda>p. (quantityJ p, totalCostJ p, avgBuyPriceJ p, residue p)) (calculatePositionsJ utcLib overflow)
     = [(Fin (2 ^ 600), PInf, PInf, NaN)] \<and>
   parseCSVData [csvRow ''7/24/2025'' ''AAPL'' ''BUY'' ''100'' ''Infinity'']
     = Inr [\<lparr> id' = ''AAPL-0'', Trade.symbol = ''AAPL'', side = BUY, Trade.quantity = Fin 100,
               price = PInf, date = ''7/24/2025'', fees = Some (Fin 0) \<rparr>] \<and>
   map (\<lambda>p. (quantityJ p, totalCostJ p, avgBuyPriceJ p, residue p))
       (calculatePositionsJ utcLib
          [\<lparr> id' = ''AAPL-0'', Trade.symbol = ''AAPL'', side = BUY, Trade.quantity = Fin 100,
              price = PInf, date = ''7/24/2025'', fees = Some (Fin 0) \<rparr>])
     = [(Fin 100, PInf, PInf, NaN)] \<and>
   (\<forall>\<epsilon>. \<not> js_lt NaN \<epsilon>)"
proof -
  have a: "map (\<lambda>p. (quantityJ p, totalCostJ p, avgBuyPriceJ p, residue p)) (calculatePositionsJ utcLib overflow)
     = [(Fin (2 ^ 600), PInf, PInf, NaN)]"
    by (simp add: overflow_def sortBy_def positionsJ_eval)
  have b: "parseCSVData [csvRow ''7/24/2025'' ''AAPL'' ''BUY'' ''100'' ''Infinity'']
     = Inr [\<lparr> id' = ''AAPL-0'', Trade.symbol = ''AAPL'', side = BUY, Trade.quantity = Fin 100,
               price = PInf, date = ''7/24/2025'', fees = Some (Fin 0) \<rparr>]"
    by (simp add: row_eval processRows_map_filter List.map_filter_def List.enumerate_eq_zip)
  have c: "map (\<lambda>p. (quantityJ p, totalCostJ p, avgBuyPriceJ p, residue p))
       (calculatePositionsJ utcLib
          [\<lparr> id' = ''AAPL-0'', Trade.symbol = ''AAPL'', side = BUY, Trade.quantity = Fin 100,
              price = PInf, date = ''7/24/2025'', fees = Some (Fin 0) \<rparr>])
     = [(Fin 100, PInf, PInf, NaN)]"
    by (simp add: sortBy_def positionsJ_eval toDouble_eval [where k = 6])
  have d: "\<forall>\<epsilon>. \<not> js_lt NaN \<epsilon>" by simp
  from a b c d show ?thesis by (intro conjI)
qed

text \<open>
  Claim C8.  When a SELL record takes a positive quantity from the position of its symbol:
  if the quantity left is 0 then \<open>avgBuyPrice\<close> and \<open>totalCost\<close> are set to 0; if it is positive
  then \<open>totalCost\<close> is lowered by \<open>avgBuyPrice\<close> times the quantity sold and \<open>avgBuyPrice\<close> is the
  new \<open>totalCost\<close> over the new quantity.
\<close>

theorem full_liquidation_resets_basis:
  assumes "side t = SELL" and "p = positionOf m (Trade.symbol t)"
    and "0 < min (Trade.quantity t) (quantity p)"
  shows "\<exists>p'. map_of (processTrade m t) (Trade.symbol t) = Some p' \<and>
              quantity p' = quantity p - min (Trade.quantity t) (quantity p) \<and>
              (quantity p' = 0 \<longrightarrow> avgBuyPrice p' = 0 \<and> totalCost p' = 0) \<and>
              (quantity p' > 0 \<longrightarrow>
                 totalCost p' = totalCost p - avgBuyPrice p * min (Trade.quantity t) (quantity p) \<and>
                 avgBuyPrice p' = totalCost p' / quantity p')"
proof -
  let ?p' = "updatePosition p t"
  have "map_of (processTrade m t) (Trade.symbol t) = Some ?p'"
    by (simp add: processTrade_lookup assms(2))
  moreover have "quantity ?p' = quantity p - min (Trade.quantity t) (quantity p)"
    using assms(1,3) by (auto simp: updatePosition_def Let_def)
  moreover have "quantity ?p' = 0 \<longrightarrow> avgBuyPrice ?p' = 0 \<and> totalCost ?p' = 0"
    using assms(1,3) by (auto simp: updatePosition_def Let_def)
  moreover have "quantity ?p' > 0 \<longrightarrow>
                 totalCost ?p' = totalCost p - avgBuyPrice p * min (Trade.quantity t) (quantity p) \<and>
                 avgBuyPrice ?p' = totalCost ?p' / quantity ?p'"
    using assms(1,3) by (auto simp: updatePosition_def Let_def)
  ultimately show ?thesis by blast
qed

text \<open>
  AAPL is sold out by SELL 200 against 150 held: quantity, average and cost are 0.  TSLA
  keeps 6 of 10 after SELL 4: cost 1500, average 250.
\<close>

theorem full_liquidation_resets_basis_witness:
  "(\<exists>p'. map_of (processTrade (accumulate (take 2 (sortBy (compareTrades utcLib) ledger)))
                    (trade ''AAPL'' SELL 200 30 ''7/26/2025'')) ''AAPL'' = Some p' \<and>
         quantity p' = 0 \<and> avgBuyPrice p' = 0 \<and> totalCost p' = 0) \<and>
   (\<exists>p'. map_of (processTrade (accumulate (take 4 (sortBy (compareTrades utcLib) ledger)))
                    (trade ''TSLA'' SELL 4 260 ''7/25/2025'')) ''TSLA'' = Some p' \<and>
         quantity p' = 6 \<and> totalCost p' = 1500 \<and> avgBuyPrice p' = 250)"
proof -
  let ?m = "accumulate (take 2 (sortBy (compareTrades utcLib) ledger))"
  let ?t = "trade ''AAPL'' SELL 200 30 ''7/26/2025''"
  let ?n = "accumulate (take 4 (sortBy (compareTrades utcLib) ledger))"
  let ?u = "trade ''TSLA'' SELL 4 260 ''7/25/2025''"
  have s: "side ?t = SELL" "side ?u = SELL" by (simp_all add: trade_def)
  have p: "positionOf ?m ''AAPL'' = positionOf ?m (Trade.symbol ?t)"
    "positionOf ?n ''TSLA'' = positionOf ?n (Trade.symbol ?u)" by (simp_all add: trade_def)
  have q: "0 < min (Trade.quantity ?t) (quantity (positionOf ?m ''AAPL''))"
    "0 < min (Trade.quantity ?u) (quantity (positionOf ?n ''TSLA''))"
    by (simp_all add: ledger_sorted positions_eval)
  from full_liquidation_resets_basis [OF s(1) p(1) q(1)]
    full_liquidation_resets_basis [OF s(2) p(2) q(2)]
  show ?thesis by (simp add: ledger_sorted positions_eval)
qed

text \<open>
  Claim C5.  On the examples of the specification the code does what the claim says: BUY
  with Amount -1500.00 and Quantity 100 gives price 15, SELL with Amount 1600.00 and
  Quantity 100 gives price 16; a row with Amount 0.00, a SELL row with a negative Amount and
  a row whose Amount is not a number are skipped.  The guard of line 118 is
  \<open>isNaN(calculatedPrice) || calculatedPrice <= 0\<close>: for a BUY row with Amount \<open>Infinity\<close> the
  computed price is \<open>+Infinity\<close>, which is not finite, and the row is emitted with that price,
  where the claim has it skipped.
\<close>

theorem infinite_price_is_emitted:
  "processRow (csvRow ''7/24/2025'' ''AAPL'' ''BUY'' ''100'' ''-1500.00'') 0
     = Some \<lparr> id' = ''AAPL-0'', Trade.symbol = ''AAPL'', side = BUY, Trade.quantity = Fin 100,
              price = Fin 15, date = ''7/24/2025'', fees = Some (Fin 0) \<rparr> \<and>
   processRow (csvRow ''7/25/2025'' ''AAPL'' ''SELL'' ''100'' ''1600.00'') 1
     = Some \<lparr> id' = ''AAPL-1'', Trade.symbol = ''AAPL'', side = SELL, Trade.quantity = Fin 100,
              price = Fin 16, date = ''7/25/2025'', fees = Some (Fin 0) \<rparr> \<and>
   rowAmount (csvRow ''7/25/2025'' ''AAPL'' ''SELL'' ''100'' ''0.00'') = Fin 0 \<and>
   processRow (csvRow ''7/25/2025'' ''AAPL'' ''SELL'' ''100'' ''0.00'') 2 = None \<and>
   calculatedPrice SELL (Fin (- 1600)) (Fin 100) = Some (Fin (- 16)) \<and>
   processRow (csvRow ''7/25/2025'' ''AAPL'' ''SELL'' ''100'' ''-1600.00'') 3 = None \<and>
   calculatedPrice BUY NaN (Fin 100) = Some NaN \<and>
   processRow (csvRow ''7/24/2025'' ''AAPL'' ''BUY'' ''100'' ''abc'') 4 = None \<and>
   rowAmount (csvRow ''7/24/2025'' ''AAPL'' ''BUY'' ''100'' ''Infinity'') = PInf \<and>
   calculatedPrice BUY PInf (Fin 100) = Some PInf \<and>
   processRow (csvRow ''7/24/2025'' ''AAPL'' ''BUY'' ''100'' ''Infinity'') 5
     = Some \<lparr> id' = ''AAPL-5'', Trade.symbol = ''AAPL'', side = BUY, Trade.quantity = Fin 100,
              price = PInf, date = ''7/24/2025'', fees = Some (Fin 0) \<rparr> \<and>
   parseCSVData [csvRow ''7/24/2025'' ''AAPL'' ''BUY'' ''100'' ''Infinity'']
     = Inr [\<lparr> id' = ''AAPL-0'', Trade.symbol = ''AAPL'', side = BUY, Trade.quantity = Fin 100,
               price = PInf, date = ''7/24/2025'', fees = Some (Fin 0) \<rparr>]"
  by (simp add: row_eval processRows_map_filter List.map_filter_def List.enumerate_eq_zip)



end
